theory Spec2Isabelle
  imports Main "HOL-Library.Sublist" "HOL-Library.AList"
begin

section \<open>JavaScript values and the argument checks of \<^verbatim>\<open>modules/checks.js\<close>\<close>

text \<open>
  The values that travel through the action map come from JSON documents (the submissions
  of the remote source, the attachment state records on disk), so they are modelled as a
  datatype of JSON values extended with \<^verbatim>\<open>undefined\<close>. Numbers are record and
  attachment identifiers, sizes and hash words: they are modelled as integers (floating
  point is not modelled). Strings are lists of characters.
\<close>

datatype jsval =
    JUndefined
  | JNull
  | JBool bool
  | JNum int
  | JStr string
  | JArr "jsval list"
  | JObj "(string \<times> jsval) list"

text \<open>JavaScript truthiness: what \<^verbatim>\<open>if(x)\<close> and \<^verbatim>\<open>!x\<close> test.\<close>

fun truthy :: "jsval \<Rightarrow> bool" where
  "truthy JUndefined = False"
| "truthy JNull = False"
| "truthy (JBool b) = b"
| "truthy (JNum n) = (n \<noteq> 0)"
| "truthy (JStr s) = (s \<noteq> [])"
| "truthy (JArr xs) = True"
| "truthy (JObj kvs) = True"

datatype jstype = TArray | TString | TNumber | TBoolean | TObject

text \<open>
  \<^verbatim>\<open>isOfType(arg, type)\<close>: \<^verbatim>\<open>Array.isArray\<close> for \<^verbatim>\<open>'array'\<close>, and
  \<^verbatim>\<open>typeof arg === type\<close> otherwise (so \<^verbatim>\<open>null\<close> and arrays are of type
  \<^verbatim>\<open>'object'\<close>).
\<close>

fun isOfType :: "jsval \<Rightarrow> jstype \<Rightarrow> bool" where
  "isOfType (JArr xs) TArray = True"
| "isOfType v TArray = False"
| "isOfType (JStr s) TString = True"
| "isOfType v TString = False"
| "isOfType (JNum n) TNumber = True"
| "isOfType v TNumber = False"
| "isOfType (JBool b) TBoolean = True"
| "isOfType v TBoolean = False"
| "isOfType JNull TObject = True"
| "isOfType (JArr xs) TObject = True"
| "isOfType (JObj kvs) TObject = True"
| "isOfType v TObject = False"

datatype condition = IfExists | MustExists | IfDefined | Defined

text \<open>
  \<^verbatim>\<open>check(arg, condition, expectedType)\<close> throws when the condition is not met;
  \<open>check\<close> is \<open>True\<close> when it returns normally. The callers below turn a failed check
  into the error value \<open>CheckError\<close>.
\<close>

fun check :: "jsval \<Rightarrow> condition \<Rightarrow> jstype \<Rightarrow> bool" where
  "check arg IfExists t = (\<not> (truthy arg \<and> \<not> isOfType arg t))"
| "check arg MustExists t = (\<not> (\<not> truthy arg \<or> \<not> isOfType arg t))"
| "check arg IfDefined t = (\<not> (arg \<noteq> JUndefined \<and> \<not> isOfType arg t))"
| "check arg Defined t = (\<not> (arg = JUndefined \<or> \<not> isOfType arg t))"

datatype confirm_condition = Exists | CDefined

text \<open>\<^verbatim>\<open>confirm(arg, condition)\<close> for the two conditions the state-record validator uses.\<close>

fun confirm :: "jsval \<Rightarrow> confirm_condition \<Rightarrow> bool" where
  "confirm arg Exists = truthy arg"
| "confirm arg CDefined = (arg \<noteq> JUndefined)"

text \<open>
  Errors as values. \<open>CheckError t v\<close> is the error thrown by a failed \<open>check\<close>
  (\<^verbatim>\<open>expected <t> in @arg: <v>\<close>); \<open>Error msg\<close> is \<^verbatim>\<open>new Error(msg)\<close>;
  \<open>Rethrown prefix e\<close> is \<^verbatim>\<open>new Error(prefix + e.message)\<close>, thrown by a
  \<^verbatim>\<open>catch\<close> block that wraps the error it caught.
\<close>

datatype error = CheckError jstype jsval | Error string | Rethrown string error

section \<open>The attachment matcher: \<^verbatim>\<open>findAttachment\<close> of \<^verbatim>\<open>modules/utils.js\<close>\<close>

text \<open>
  A remote attachment descriptor. The source checks that \<^verbatim>\<open>mimetype\<close>,
  \<^verbatim>\<open>download_url\<close> and \<^verbatim>\<open>filename\<close> are non-empty strings and that
  \<^verbatim>\<open>instance\<close> and \<^verbatim>\<open>id\<close> are numbers; the record types the fields and the
  model keeps the non-emptiness checks.
\<close>

record attachment =
  mimetype :: string
  download_url :: string
  filename :: string
  att_instance :: int
  att_id :: int

text \<open>
  \<^verbatim>\<open>String.prototype.lastIndexOf(n)\<close>: the greatest index at which \<open>n\<close> occurs in
  \<open>s\<close>, searching downwards from \<open>length s - length n\<close>; \<open>-1\<close> when there is none.
\<close>

definition occurs_at :: "string \<Rightarrow> string \<Rightarrow> nat \<Rightarrow> bool" where
  "occurs_at s n i = (take (length n) (drop i s) = n)"

fun lastIndexOf_from :: "string \<Rightarrow> string \<Rightarrow> nat \<Rightarrow> int" where
  "lastIndexOf_from s n 0 = (if occurs_at s n 0 then 0 else - 1)"
| "lastIndexOf_from s n (Suc i) =
     (if occurs_at s n (Suc i) then int (Suc i) else lastIndexOf_from s n i)"

definition lastIndexOf :: "string \<Rightarrow> string \<Rightarrow> int" where
  "lastIndexOf s n =
     (if length s < length n then - 1 else lastIndexOf_from s n (length s - length n))"

text \<open>\<^verbatim>\<open>/^image/.test(mimetype)\<close>: the mimetype begins with \<^verbatim>\<open>image\<close>.\<close>

definition image_mimetype :: "string \<Rightarrow> bool" where
  "image_mimetype m = (take 5 m = ''image'')"

text \<open>
  The loop of \<^verbatim>\<open>findAttachment\<close> over the attachments, with the best match so far
  (\<^verbatim>\<open>result\<close>, \<^verbatim>\<open>null\<close> at first) as accumulator. Each attachment is checked
  before it is looked at; a failed check throws.
\<close>

fun findAttachment_loop ::
  "string \<Rightarrow> attachment list \<Rightarrow> attachment option \<Rightarrow> error + attachment option" where
  "findAttachment_loop name [] result = Inr result"
| "findAttachment_loop name (a # as) result =
     (if \<not> check (JStr (mimetype a)) MustExists TString
        then Inl (CheckError TString (JStr (mimetype a)))
      else if \<not> check (JStr (download_url a)) MustExists TString
        then Inl (CheckError TString (JStr (download_url a)))
      else if \<not> check (JStr (filename a)) MustExists TString
        then Inl (CheckError TString (JStr (filename a)))
      else if \<not> check (JNum (att_instance a)) Defined TNumber
        then Inl (CheckError TNumber (JNum (att_instance a)))
      else if \<not> check (JNum (att_id a)) Defined TNumber
        then Inl (CheckError TNumber (JNum (att_id a)))
      else if \<not> image_mimetype (mimetype a) then findAttachment_loop name as result
      else
        let liofn = lastIndexOf (filename a) name in
        if liofn = - 1 \<or> liofn \<noteq> int (length (filename a)) - int (length name)
          then findAttachment_loop name as result
        else (case result of
                None \<Rightarrow> findAttachment_loop name as (Some a)
              | Some r \<Rightarrow>
                  if att_id a > att_id r then findAttachment_loop name as (Some a)
                  else findAttachment_loop name as result))"

text \<open>
  \<^verbatim>\<open>findAttachment(name, attachments, id)\<close>. The name arrives as a raw value of the
  submission; the first check throws unless it is a non-empty string.
\<close>

definition findAttachment ::
  "jsval \<Rightarrow> attachment list \<Rightarrow> int \<Rightarrow> error + attachment option" where
  "findAttachment name attachments rid =
     (if \<not> check name MustExists TString then Inl (CheckError TString name)
      else if \<not> check (JNum rid) Defined TNumber then Inl (CheckError TNumber (JNum rid))
      else if \<not> truthy name then Inr None
      else if attachments = [] then Inr None
      else (case name of
              JStr n \<Rightarrow> findAttachment_loop n attachments None
            | _ \<Rightarrow> Inl (CheckError TString name)))"

text \<open>What the claims call a well-formed descriptor and a qualifying attachment.\<close>

definition wf_attachment :: "attachment \<Rightarrow> bool" where
  "wf_attachment a = (mimetype a \<noteq> [] \<and> download_url a \<noteq> [] \<and> filename a \<noteq> [])"

definition qualifies :: "string \<Rightarrow> attachment \<Rightarrow> bool" where
  "qualifies name a = (image_mimetype (mimetype a) \<and> suffix name (filename a))"

section \<open>Strings and paths\<close>

text \<open>
  Decimal rendering of an integer, as string concatenation and template literals render
  a record id or a size (the exponent notation of numbers beyond \<open>10^21\<close> is not
  modelled).
\<close>

definition digit_char :: "nat \<Rightarrow> char" where
  "digit_char d = ''0123456789'' ! d"

function show_nat :: "nat \<Rightarrow> string" where
  "show_nat n = (if n < 10 then [digit_char n] else show_nat (n div 10) @ [digit_char (n mod 10)])"
  by pat_completeness auto
termination
  by (relation "measure id") auto

declare show_nat.simps [simp del]

definition show_int :: "int \<Rightarrow> string" where
  "show_int i = (if i < 0 then CHR ''-'' # show_nat (nat (- i)) else show_nat (nat i))"

fun join_with :: "string \<Rightarrow> string list \<Rightarrow> string" where
  "join_with sep [] = []"
| "join_with sep [x] = x"
| "join_with sep (x # y # ys) = x @ sep @ join_with sep (y # ys)"

text \<open>
  \<^verbatim>\<open>String(v)\<close>, as string concatenation and template literals apply it. The places
  that reach it below hold strings and numbers; the other cases follow JavaScript for
  flat values (an array element that is itself an array or an object is rendered by the
  same function).
\<close>

fun show_js :: "jsval \<Rightarrow> string" where
  "show_js JUndefined = ''undefined''"
| "show_js JNull = ''null''"
| "show_js (JBool b) = (if b then ''true'' else ''false'')"
| "show_js (JNum n) = show_int n"
| "show_js (JStr s) = s"
| "show_js (JArr xs) =
     join_with '','' (map (\<lambda>x. if x = JUndefined \<or> x = JNull then [] else show_js x) xs)"
| "show_js (JObj kvs) = ''[object Object]''"

text \<open>
  \<^verbatim>\<open>Utils.toPath(entries)\<close>: the entries joined by the separator. The normalisation
  that \<^verbatim>\<open>path.join\<close> and \<^verbatim>\<open>path.resolve\<close> add (dot segments, doubled
  separators, the working directory) is not modelled: paths are taken as already
  absolute and normal.
\<close>

definition toPath :: "string list \<Rightarrow> string" where
  "toPath entries = join_with ''/'' entries"

text \<open>\<^verbatim>\<open>Utils.buildImageName(prefix, name)\<close>, after its two checks.\<close>

definition buildImageName :: "string \<Rightarrow> string \<Rightarrow> string" where
  "buildImageName pre name = pre @ ''_'' @ name"

section \<open>The action map builder: \<^verbatim>\<open>buildActionMap\<close>\<close>

text \<open>
  A submission carries its id, its attachments and \<^verbatim>\<open>@images_map\<close>: for each image
  field's autoname the array of the bindings \<^verbatim>\<open>{key: value}\<close> that the submission
  has for the field (each binding an object, given by its entries). An asset carries its
  image fields and its submissions. The log lines and the counters of the step, which
  no property below reads, are left out.
\<close>

record submission =
  subm_id :: int
  subm_attachments :: "attachment list"
  images_map :: "(string \<times> (string \<times> jsval) list list) list"

record imgfield =
  autoname :: string

record asset =
  uid :: string
  asset_name :: string
  imgs :: "imgfield list"
  submissions :: "submission list"

datatype action = Keep | Delete | NoAction

text \<open>
  One entry of the action map:
  \<^verbatim>\<open>{ value, attachment, action, subm_mapped_key, warning }\<close>; the action
  \<^verbatim>\<open>'none'\<close> is \<open>NoAction\<close>.
\<close>

record action_entry =
  ae_value :: jsval
  ae_attachment :: "attachment option"
  ae_action :: action
  ae_subm_mapped_key :: "string option"
  ae_warning :: "string option"

text \<open>
  The map of one submission: \<^verbatim>\<open>_id\<close> and one entry per image field, in the order
  of \<^verbatim>\<open>Object.entries\<close> (insertion order; autonames are question names, which are
  neither integer-like nor \<^verbatim>\<open>_id\<close>).
\<close>

record emap =
  emap_id :: int
  emap_fields :: "(string \<times> action_entry) list"

record asset_map =
  am_asset :: asset
  amap :: "emap list"
  am_warnings :: "string list"

definition warning_text :: "int \<Rightarrow> string \<Rightarrow> jsval \<Rightarrow> string" where
  "warning_text rid field v =
     ''this field has an image name defined, but no attachment exist for it - record: ''
       @ show_int rid @ '', field: '' @ field @ '', value: '' @ show_js v"

text \<open>
  The classification of one field, given the key and the value bound to it
  (\<^verbatim>\<open>undefined\<close> when the field has no binding): the \<^verbatim>\<open>if(value)\<close> cascade that
  sets \<^verbatim>\<open>attachment\<close>, \<^verbatim>\<open>action\<close> and \<^verbatim>\<open>warning\<close>.
\<close>

definition classify ::
  "submission \<Rightarrow> imgfield \<Rightarrow> string option \<Rightarrow> jsval \<Rightarrow> error + action_entry" where
  "classify subm imgField subm_mapped_key v =
     (if truthy v then
        (case findAttachment v (subm_attachments subm) (subm_id subm) of
           Inl e \<Rightarrow> Inl e
         | Inr None \<Rightarrow>
             Inr \<lparr>ae_value = v, ae_attachment = None, ae_action = NoAction,
                  ae_subm_mapped_key = subm_mapped_key,
                  ae_warning = Some (warning_text (subm_id subm) (autoname imgField) v)\<rparr>
         | Inr (Some a) \<Rightarrow>
             Inr \<lparr>ae_value = v, ae_attachment = Some a, ae_action = Keep,
                  ae_subm_mapped_key = subm_mapped_key, ae_warning = None\<rparr>)
      else
        Inr \<lparr>ae_value = v, ae_attachment = None, ae_action = Delete,
             ae_subm_mapped_key = subm_mapped_key, ae_warning = None\<rparr>)"

text \<open>
  The body of the loop over the image fields: the lookup in \<^verbatim>\<open>@images_map\<close>, the
  two shape errors, then the classification.
\<close>

definition field_action :: "submission \<Rightarrow> imgfield \<Rightarrow> error + action_entry" where
  "field_action subm imgField =
     (if \<not> check (JStr (autoname imgField)) MustExists TString
        then Inl (CheckError TString (JStr (autoname imgField)))
      else
        (case map_of (images_map subm) (autoname imgField) of
           None \<Rightarrow> Inl (CheckError TArray JUndefined)
         | Some imgField_map_a \<Rightarrow>
             if length imgField_map_a > 1
               then Inl (Error ''expected one or zero entries in @@images_map element'')
             else
               (case imgField_map_a of
                  [] \<Rightarrow> classify subm imgField None JUndefined
                | imgField_map_a_e # _ \<Rightarrow>
                    (case imgField_map_a_e of
                       [(k, v)] \<Rightarrow> classify subm imgField (Some k) v
                     | _ \<Rightarrow> Inl (Error ''expected only one entry in @@images_map element'')))))"

text \<open>
  The three loops: over the image fields of a submission (filling \<^verbatim>\<open>_map\<close> and
  \<^verbatim>\<open>warnings\<close>), over the submissions of an asset, over the assets. An error thrown in
  a loop body leaves the step: nothing catches it before \<^verbatim>\<open>run\<close>.
\<close>

fun build_fields ::
  "submission \<Rightarrow> imgfield list \<Rightarrow> (string \<times> action_entry) list \<times> string list
     \<Rightarrow> error + ((string \<times> action_entry) list \<times> string list)" where
  "build_fields subm [] (m, warnings) = Inr (m, warnings)"
| "build_fields subm (imgField # rest) (m, warnings) =
     (case field_action subm imgField of
        Inl e \<Rightarrow> Inl e
      | Inr entry \<Rightarrow>
          build_fields subm rest
            (AList.update (autoname imgField) entry m,
             (case ae_warning entry of None \<Rightarrow> warnings | Some w \<Rightarrow> warnings @ [w])))"

fun build_submissions ::
  "imgfield list \<Rightarrow> submission list \<Rightarrow> emap list \<times> string list
     \<Rightarrow> error + (emap list \<times> string list)" where
  "build_submissions flds [] (ms, warnings) = Inr (ms, warnings)"
| "build_submissions flds (subm # rest) (ms, warnings) =
     (case build_fields subm flds ([], warnings) of
        Inl e \<Rightarrow> Inl e
      | Inr (m, warnings') \<Rightarrow>
          build_submissions flds rest
            (ms @ [\<lparr>emap_id = subm_id subm, emap_fields = m\<rparr>], warnings'))"

fun build_assets :: "asset list \<Rightarrow> asset_map list \<Rightarrow> error + asset_map list" where
  "build_assets [] results = Inr results"
| "build_assets (a # rest) results =
     (if \<not> check (JStr (uid a)) MustExists TString then Inl (CheckError TString (JStr (uid a)))
      else if submissions a = [] then build_assets rest results
      else if imgs a = [] then build_assets rest results
      else
        (case build_submissions (imgs a) (submissions a) ([], []) of
           Inl e \<Rightarrow> Inl e
         | Inr (ms, warnings) \<Rightarrow>
             build_assets rest (results @ [\<lparr>am_asset = a, amap = ms, am_warnings = warnings\<rparr>])))"

definition buildActionMap :: "asset list \<Rightarrow> error + asset_map list" where
  "buildActionMap assets = build_assets assets []"

text \<open>
  \<^verbatim>\<open>run(step, ...)\<close>: a step that throws ends the process with exit status 1; so does
  a step that returns no result.
\<close>

datatype 'a step_outcome = Continue 'a | Exit1

definition run_step :: "(error + 'a list) \<Rightarrow> 'a list step_outcome" where
  "run_step r = (case r of Inl e \<Rightarrow> Exit1 | Inr xs \<Rightarrow> if xs = [] then Exit1 else Continue xs)"

section \<open>The file system\<close>

text \<open>
  The local directory tree as an association list from paths to nodes, in the order in
  which a directory listing returns them. A file holds either raw text (an image, the
  ledger) or a JSON document (\<open>Json v\<close> is a file whose text is
  \<^verbatim>\<open>JSON.stringify(v)\<close>). The directories that exist are the \<open>Dir\<close> nodes.
\<close>

datatype content = Bytes string | Json jsval

datatype node = File content | Dir

type_synonym fs = "(string \<times> node) list"

text \<open>\<^verbatim>\<open>error.message\<close>.\<close>

fun type_name :: "jstype \<Rightarrow> string" where
  "type_name TArray = ''array''"
| "type_name TString = ''string''"
| "type_name TNumber = ''number''"
| "type_name TBoolean = ''boolean''"
| "type_name TObject = ''object''"

fun message :: "error \<Rightarrow> string" where
  "message (CheckError t v) = ''expected '' @ type_name t @ '' in @arg: '' @ show_js v"
| "message (Error m) = m"
| "message (Rethrown p e) = p @ message e"

definition fileExists :: "fs \<Rightarrow> string \<Rightarrow> bool" where
  "fileExists fs p = (case map_of fs p of Some (File c) \<Rightarrow> True | _ \<Rightarrow> False)"

definition dirExists :: "fs \<Rightarrow> string \<Rightarrow> bool" where
  "dirExists fs p = (case map_of fs p of Some Dir \<Rightarrow> True | _ \<Rightarrow> False)"

definition pathExists :: "fs \<Rightarrow> string \<Rightarrow> bool" where
  "pathExists fs p = (map_of fs p \<noteq> None)"

text \<open>
  \<^verbatim>\<open>makeDirPath\<close>: nothing to do for an existing directory; \<^verbatim>\<open>mkdirSync\<close> throws
  on the path of a regular file.
\<close>

definition makeDirPath :: "fs \<Rightarrow> string \<Rightarrow> error + fs" where
  "makeDirPath fs p =
     (if dirExists fs p then Inr fs
      else if pathExists fs p then Inl (Error (''trying to make path fails: '' @ p))
      else Inr (AList.update p Dir fs))"

text \<open>
  \<^verbatim>\<open>writeFile(filePath, data)\<close>: both arguments are checked to be non-empty;
  writing to the path of a directory throws.
\<close>

definition content_empty :: "content \<Rightarrow> bool" where
  "content_empty c = (case c of Bytes s \<Rightarrow> s = [] | Json v \<Rightarrow> False)"

definition writeFile :: "fs \<Rightarrow> string \<Rightarrow> content \<Rightarrow> error + fs" where
  "writeFile fs p c =
     (if \<not> check (JStr p) MustExists TString then Inl (CheckError TString (JStr p))
      else if content_empty c then Inl (CheckError TString (JStr []))
      else if dirExists fs p then Inl (Error (''trying to write file fails: '' @ p))
      else Inr (AList.update p (File c) fs))"

text \<open>
  \<^verbatim>\<open>appendFile(filePath, data, {onNewLine: true})\<close>, which the run uses for the rows
  of the ledger: the text is added on a new line to the file, created when missing.
\<close>

definition appendFile :: "fs \<Rightarrow> string \<Rightarrow> string \<Rightarrow> error + fs" where
  "appendFile fs p d =
     (if \<not> check (JStr p) MustExists TString then Inl (CheckError TString (JStr p))
      else if \<not> check (JStr d) MustExists TString then Inl (CheckError TString (JStr d))
      else
        (case map_of fs p of
           Some Dir \<Rightarrow> Inl (Error (''trying to write file fails: '' @ p))
         | Some (File (Bytes old)) \<Rightarrow> Inr (AList.update p (File (Bytes (old @ [CHR 0x0A] @ d))) fs)
         | Some (File (Json v)) \<Rightarrow> Inl (Error (''trying to write file fails: '' @ p))
         | None \<Rightarrow> Inr (AList.update p (File (Bytes ([CHR 0x0A] @ d))) fs)))"

fun strip_prefix :: "string \<Rightarrow> string \<Rightarrow> string option" where
  "strip_prefix [] ys = Some ys"
| "strip_prefix (x # xs) [] = None"
| "strip_prefix (x # xs) (y # ys) = (if x = y then strip_prefix xs ys else None)"

text \<open>
  \<^verbatim>\<open>deletePath\<close>: \<^verbatim>\<open>false\<close> and no effect when the path does not exist; otherwise
  the path and, for a directory, everything below it are removed
  (\<^verbatim>\<open>rmSync\<close> with \<^verbatim>\<open>force\<close> and \<^verbatim>\<open>recursive\<close>).
\<close>

definition deletePath :: "fs \<Rightarrow> string \<Rightarrow> bool \<times> fs" where
  "deletePath fs p =
     (if \<not> pathExists fs p then (False, fs)
      else (True, filter (\<lambda>(q, n). q \<noteq> p \<and> strip_prefix (p @ ''/'') q = None) fs))"

text \<open>
  \<^verbatim>\<open>mvFile(oldPath, newPath)\<close>, for the regular files its callers pass:
  \<^verbatim>\<open>renameSync\<close> throws when the source is missing or the target is a directory,
  and replaces a file at the target.
\<close>

definition mvFile :: "fs \<Rightarrow> string \<Rightarrow> string \<Rightarrow> error + fs" where
  "mvFile fs oldPath newPath =
     (case map_of fs oldPath of
        Some (File c) \<Rightarrow>
          if dirExists fs newPath
            then Inl (Error ''trying to rename path fails - error: EISDIR'')
          else Inr (AList.update newPath (File c) (AList.delete oldPath fs))
      | _ \<Rightarrow> Inl (Error ''trying to rename path fails - error: ENOENT''))"

text \<open>
  \<^verbatim>\<open>getDirEntries(dirPath, {filesOnly: true})\<close>: the names of the regular files
  directly in the directory.
\<close>

definition child_name :: "string \<Rightarrow> string \<Rightarrow> string option" where
  "child_name dir p =
     (case strip_prefix (dir @ ''/'') p of
        None \<Rightarrow> None
      | Some n \<Rightarrow> if n \<noteq> [] \<and> CHR ''/'' \<notin> set n then Some n else None)"

definition getDirEntries :: "fs \<Rightarrow> string \<Rightarrow> error + string list" where
  "getDirEntries fs dirPath =
     (if \<not> check (JStr dirPath) MustExists TString then Inl (CheckError TString (JStr dirPath))
      else if \<not> dirExists fs dirPath
        then Inl (Error ''trying to get dir entries fails: ENOENT'')
      else Inr (List.map_filter
                  (\<lambda>(p, n). case n of File c \<Rightarrow> child_name dirPath p | Dir \<Rightarrow> None) fs))"

text \<open>
  \<^verbatim>\<open>renameIfExists(filePath)\<close>: the path itself when no file is there, else the
  first of \<^verbatim>\<open>name_1.ext\<close>, \<^verbatim>\<open>name_2.ext\<close>, ... that is free, trying a thousand
  names.
\<close>

function renameIfExists_loop :: "fs \<Rightarrow> string \<Rightarrow> string \<Rightarrow> string \<Rightarrow> nat \<Rightarrow> string" where
  "renameIfExists_loop fs noExt ext p tries =
     (if fileExists fs p \<and> tries \<le> 1000
        then renameIfExists_loop fs noExt ext (noExt @ ''_'' @ show_nat tries @ ext) (Suc tries)
      else p)"
  by pat_completeness auto
termination
  by (relation "measure (\<lambda>(fs, noExt, ext, p, tries). 1001 - tries)") auto

declare renameIfExists_loop.simps [simp del]

definition renameIfExists :: "fs \<Rightarrow> string \<Rightarrow> error + string" where
  "renameIfExists fs filePath =
     (if \<not> check (JStr filePath) MustExists TString then Inl (CheckError TString (JStr filePath))
      else
        let ext_i = lastIndexOf filePath ''.'';
            ext = (if ext_i > 0 then drop (nat ext_i) filePath else []);
            noExt = (if ext_i > 0 then take (nat ext_i) filePath else filePath);
            p = renameIfExists_loop fs noExt ext filePath 1
        in if fileExists fs p then Inl (Error (''could not rename file: '' @ filePath))
           else Inr p)"

section \<open>The orphan sweeper: \<^verbatim>\<open>ImageCleaner\<close> of \<^verbatim>\<open>modules/image-cleaner.js\<close>\<close>

text \<open>
  The private fields of the object. An unset map (\<^verbatim>\<open>''\<close> in the source) is the
  empty list. The run log path, which only the report uses, is left out.
\<close>

record clean_op =
  co_status_ok :: bool
  co_targetFile :: string
  co_targetFilePath :: string
  co_newFilePath :: "string option"
  co_detail :: string

record cleaner =
  c_map :: "emap list"
  c_path :: string
  c_cleanedPath :: string
  c_deleteImages :: bool
  c_keeps :: "string list"
  c_deletes :: "string list"
  c_nones :: "string list"
  c_isRunning :: bool
  c_wasRan :: bool
  c_totalActions :: int
  c_totalActionsExecuted :: nat
  c_cleaned :: "clean_op list"
  c_errors :: "error list"

definition resetCounters :: "cleaner \<Rightarrow> cleaner" where
  "resetCounters c =
     c\<lparr>c_totalActions := 0, c_totalActionsExecuted := 0, c_cleaned := [], c_errors := []\<rparr>"

text \<open>\<^verbatim>\<open>new ImageCleaner()\<close>: every setter of the constructor takes its empty branch.\<close>

definition new_ImageCleaner :: cleaner where
  "new_ImageCleaner =
     \<lparr>c_map = [], c_path = [], c_cleanedPath = [], c_deleteImages = False,
      c_keeps = [], c_deletes = [], c_nones = [], c_isRunning = False, c_wasRan = False,
      c_totalActions = 0, c_totalActionsExecuted = 0, c_cleaned = [], c_errors = []\<rparr>"

definition running_error :: error where
  "running_error = Error ''ImageCleaner is running: cannot be alterated''"

definition set_deleteImages :: "cleaner \<Rightarrow> bool \<Rightarrow> error + cleaner" where
  "set_deleteImages c v =
     (if c_isRunning c then Inl running_error
      else Inr (resetCounters (c\<lparr>c_deleteImages := v, c_wasRan := False\<rparr>)))"

definition set_path :: "fs \<Rightarrow> cleaner \<Rightarrow> string \<Rightarrow> error + cleaner" where
  "set_path fs c v =
     (if c_isRunning c then Inl running_error
      else if v = [] then Inr (resetCounters (c\<lparr>c_path := [], c_wasRan := False\<rparr>))
      else if \<not> dirExists fs v then Inl (Error (''path does not exists: '' @ v))
      else Inr (resetCounters (c\<lparr>c_path := v, c_wasRan := False\<rparr>)))"

definition set_cleanedPath :: "fs \<Rightarrow> cleaner \<Rightarrow> string \<Rightarrow> error + (cleaner \<times> fs)" where
  "set_cleanedPath fs c v =
     (if c_isRunning c then Inl running_error
      else if v = [] then Inr (resetCounters (c\<lparr>c_cleanedPath := [], c_wasRan := False\<rparr>), fs)
      else
        (case (if \<not> dirExists fs v then makeDirPath fs v else Inr fs) of
           Inl e \<Rightarrow> Inl e
         | Inr fs' \<Rightarrow> Inr (resetCounters (c\<lparr>c_cleanedPath := v, c_wasRan := False\<rparr>), fs')))"

text \<open>
  The setter of \<^verbatim>\<open>map\<close>. For a non-empty map it stores the map, resets the counters
  and pushes the prefixed name of every entry that has a (truthy) value to the list of its
  action; the three lists are emptied only when an empty map is set.
\<close>

definition name_entry :: "int \<Rightarrow> action_entry \<Rightarrow> cleaner \<Rightarrow> error + cleaner" where
  "name_entry rid e c =
     (if \<not> check (ae_value e) IfExists TString then Inl (CheckError TString (ae_value e))
      else if truthy (ae_value e) then
        let img_name = buildImageName (show_int rid) (show_js (ae_value e)) in
        Inr (c\<lparr>c_keeps := (if ae_action e = Keep then c_keeps c @ [img_name] else c_keeps c),
               c_deletes := (if ae_action e = Delete then c_deletes c @ [img_name] else c_deletes c),
               c_nones := (if ae_action e = NoAction then c_nones c @ [img_name] else c_nones c)\<rparr>)
      else Inr c)"

fun name_entries :: "int \<Rightarrow> (string \<times> action_entry) list \<Rightarrow> cleaner \<Rightarrow> error + cleaner" where
  "name_entries rid [] c = Inr c"
| "name_entries rid ((k, e) # rest) c =
     (case name_entry rid e c of Inl err \<Rightarrow> Inl err | Inr c' \<Rightarrow> name_entries rid rest c')"

fun name_maps :: "emap list \<Rightarrow> cleaner \<Rightarrow> error + cleaner" where
  "name_maps [] c = Inr c"
| "name_maps (m # rest) c =
     (case name_entries (emap_id m) (emap_fields m) c of
        Inl err \<Rightarrow> Inl err
      | Inr c' \<Rightarrow> name_maps rest c')"

definition set_map :: "cleaner \<Rightarrow> emap list \<Rightarrow> error + cleaner" where
  "set_map c v =
     (if c_isRunning c then Inl running_error
      else if v = [] then
        Inr ((resetCounters (c\<lparr>c_map := [], c_wasRan := False\<rparr>))
               \<lparr>c_keeps := [], c_deletes := [], c_nones := []\<rparr>)
      else name_maps v (resetCounters (c\<lparr>c_map := v, c_wasRan := False\<rparr>)))"

text \<open>
  The two ways in which the sweep disposes of a file: \<^verbatim>\<open>deletePath\<close>, and
  \<^verbatim>\<open>mvFile\<close> to a free name in the cleaned directory. An error of the move is
  recorded in the operation; an error of \<^verbatim>\<open>renameIfExists\<close> is not caught.
\<close>

definition clean_delete :: "cleaner \<Rightarrow> fs \<Rightarrow> string \<Rightarrow> cleaner \<times> fs" where
  "clean_delete c fs file =
     (let target = toPath [c_path c, file];
          fs' = snd (deletePath fs target);
          op = \<lparr>co_status_ok = True, co_targetFile = file, co_targetFilePath = target,
                co_newFilePath = None, co_detail = ''file deleted''\<rparr>
      in (c\<lparr>c_cleaned := c_cleaned c @ [op],
            c_totalActionsExecuted := Suc (c_totalActionsExecuted c)\<rparr>, fs'))"

definition clean_move :: "cleaner \<Rightarrow> fs \<Rightarrow> string \<Rightarrow> error + (cleaner \<times> fs)" where
  "clean_move c fs file =
     (let target = toPath [c_path c, file] in
      case renameIfExists fs (toPath [c_cleanedPath c, file]) of
        Inl e \<Rightarrow> Inl e
      | Inr newFile \<Rightarrow>
          (case mvFile fs target newFile of
             Inl e \<Rightarrow>
               Inr (c\<lparr>c_cleaned := c_cleaned c @
                        [\<lparr>co_status_ok = False, co_targetFile = file, co_targetFilePath = target,
                          co_newFilePath = Some newFile, co_detail = message e\<rparr>],
                      c_totalActionsExecuted := Suc (c_totalActionsExecuted c)\<rparr>, fs)
           | Inr fs' \<Rightarrow>
               Inr (c\<lparr>c_cleaned := c_cleaned c @
                        [\<lparr>co_status_ok = True, co_targetFile = file, co_targetFilePath = target,
                          co_newFilePath = Some newFile, co_detail = ''file moved''\<rparr>],
                      c_totalActionsExecuted := Suc (c_totalActionsExecuted c)\<rparr>, fs')))"

text \<open>The body of the loop of \<^verbatim>\<open>run\<close> over the files of the directory.\<close>

definition clean_file :: "cleaner \<Rightarrow> fs \<Rightarrow> string \<Rightarrow> error + (cleaner \<times> fs)" where
  "clean_file c fs file =
     (if file \<notin> set (c_keeps c) \<and> file \<notin> set (c_deletes c) then
        (if c_deleteImages c then Inr (clean_delete c fs file)
         else clean_move c fs file)
      else if file \<in> set (c_nones c) then clean_move c fs file
      else Inr (c, fs))"

fun clean_files :: "string list \<Rightarrow> cleaner \<times> fs \<Rightarrow> error + (cleaner \<times> fs)" where
  "clean_files [] (c, fs) = Inr (c, fs)"
| "clean_files (file # rest) (c, fs) =
     (case clean_file c fs file of
        Inl e \<Rightarrow> Inl e
      | Inr (c', fs') \<Rightarrow> clean_files rest (c', fs'))"

text \<open>
  \<^verbatim>\<open>run()\<close>. The method is declared \<^verbatim>\<open>async\<close> but awaits nothing, so a call runs
  the whole sweep before it returns its promise.
\<close>

definition cleaner_run :: "cleaner \<Rightarrow> fs \<Rightarrow> error + (cleaner \<times> fs)" where
  "cleaner_run c fs =
     (if c_map c = [] then Inl (Error ''map attribute is not set, could not run'')
      else if c_path c = [] then Inl (Error ''path attribute is not set, could not run'')
      else if c_cleanedPath c = []
        then Inl (Error ''cleanedPath attribute is not set, could not run'')
      else
        let c1 = resetCounters (c\<lparr>c_isRunning := True, c_wasRan := False\<rparr>) in
        (case getDirEntries fs (c_path c1) of
           Inl e \<Rightarrow> Inl e
         | Inr files \<Rightarrow>
             let c2 = c1\<lparr>c_totalActions :=
                          max 0 (int (length files)
                                   - (int (length (c_keeps c1)) + int (length (c_deletes c1))))\<rparr>
             in (case clean_files files (c2, fs) of
                   Inl e \<Rightarrow> Inl e
                 | Inr (c3, fs') \<Rightarrow> Inr (c3\<lparr>c_isRunning := False, c_wasRan := True\<rparr>, fs'))))"

section \<open>Attachment state records\<close>

text \<open>Property access \<^verbatim>\<open>o.k\<close> on a value that is not \<^verbatim>\<open>null\<close> or \<^verbatim>\<open>undefined\<close>.\<close>

fun field :: "jsval \<Rightarrow> string \<Rightarrow> jsval" where
  "field (JObj kvs) k = (case map_of kvs k of None \<Rightarrow> JUndefined | Some v \<Rightarrow> v)"
| "field v k = JUndefined"

text \<open>
  \<^verbatim>\<open>isValidAttachmentMap\<close>: the check on the argument throws; the validation itself
  is the conjunction of the source (whose short-circuit evaluation keeps every property
  access on an object).
\<close>

definition isValidAttachmentMap :: "jsval \<Rightarrow> error + bool" where
  "isValidAttachmentMap attachmentMap =
     (if \<not> check attachmentMap MustExists TObject then Inl (CheckError TObject attachmentMap)
      else
        let imgInfo = field attachmentMap ''imgInfo'' in
        Inr (confirm attachmentMap Exists \<and> isOfType attachmentMap TObject
           \<and> confirm (field attachmentMap ''imageName'') Exists
           \<and> isOfType (field attachmentMap ''imageName'') TString
           \<and> confirm (field attachmentMap ''originalName'') Exists
           \<and> isOfType (field attachmentMap ''originalName'') TString
           \<and> confirm (field attachmentMap ''attachmentId'') CDefined
           \<and> isOfType (field attachmentMap ''attachmentId'') TNumber
           \<and> confirm (field attachmentMap ''saveTimestamp'') Exists
           \<and> isOfType (field attachmentMap ''saveTimestamp'') TString
           \<and> confirm imgInfo Exists \<and> isOfType imgInfo TObject
           \<and> confirm (field imgInfo ''assetUid'') Exists \<and> isOfType (field imgInfo ''assetUid'') TString
           \<and> confirm (field imgInfo ''assetName'') Exists \<and> isOfType (field imgInfo ''assetName'') TString
           \<and> confirm (field imgInfo ''recordId'') CDefined \<and> isOfType (field imgInfo ''recordId'') TNumber
           \<and> confirm (field imgInfo ''name'') Exists \<and> isOfType (field imgInfo ''name'') TString
           \<and> confirm (field imgInfo ''size'') CDefined \<and> isOfType (field imgInfo ''size'') TNumber
           \<and> confirm (field imgInfo ''sizeMB'') Exists \<and> isOfType (field imgInfo ''sizeMB'') TString
           \<and> confirm (field imgInfo ''type'') Exists \<and> isOfType (field imgInfo ''type'') TString
           \<and> confirm (field imgInfo ''dimensions'') Exists
           \<and> isOfType (field imgInfo ''dimensions'') TString
           \<and> confirm (field imgInfo ''width'') CDefined \<and> isOfType (field imgInfo ''width'') TNumber
           \<and> confirm (field imgInfo ''height'') CDefined \<and> isOfType (field imgInfo ''height'') TNumber
           \<and> confirm (field imgInfo ''hash'') Exists \<and> isOfType (field imgInfo ''hash'') TArray))"

text \<open>
  \<^verbatim>\<open>parseJSONFile\<close>: the file must exist; a file of raw text is taken not to parse
  as JSON.
\<close>

definition parseJSONFile :: "fs \<Rightarrow> string \<Rightarrow> error + jsval" where
  "parseJSONFile fs file =
     (case map_of fs file of
        Some (File (Json v)) \<Rightarrow> Inr v
      | Some (File (Bytes s)) \<Rightarrow> Inl (Error ''JSON parse operation failed'')
      | _ \<Rightarrow> Inl (Error (''file does not exists: '' @ file)))"

text \<open>
  The start of the loop body of \<^verbatim>\<open>updateImages\<close> over the entries of a record:
  reading the state record of the field (\<^verbatim>\<open>current_attachment_map_o\<close>,
  \<^verbatim>\<open>e_has_attachment_map\<close>), with a warning for a record that is not valid. Nothing
  catches an error of the parse or of the validator's argument check.
\<close>

definition read_attachment_map ::
  "fs \<Rightarrow> string \<Rightarrow> string list \<Rightarrow> error + (jsval \<times> bool \<times> string list)" where
  "read_attachment_map fs e_attachment_map_file_path warns =
     (if fileExists fs e_attachment_map_file_path then
        (case parseJSONFile fs e_attachment_map_file_path of
           Inl e \<Rightarrow> Inl e
         | Inr current_attachment_map_o \<Rightarrow>
             (case isValidAttachmentMap current_attachment_map_o of
                Inl e \<Rightarrow> Inl e
              | Inr isAttachmentMapOk \<Rightarrow>
                  if \<not> isAttachmentMapOk then
                    Inr (current_attachment_map_o, False,
                         warns @ [''attachment map wasn't ok: '' @ e_attachment_map_file_path])
                  else Inr (current_attachment_map_o, True, warns)))
      else Inr (JNull, False, warns))"

section \<open>Hashes\<close>

text \<open>
  The run reads its environment through a record: the digest of a file's text
  (\<^verbatim>\<open>sjcl.hash.sha256.hash\<close>, which returns an array of eight numbers, as
  \<^verbatim>\<open>isValidFileHash\<close> itself checks and as the state records the documentation shows
  hold), the pixel size of an image (\<^verbatim>\<open>Canvas.Image\<close>; a file that does not load as an
  image is not modelled), the clock, the rounded size label of the ledger (computed in
  floating point), and the network.

  The network answers the \<open>n\<close>-th download attempt of the run at a URL either by throwing
  (\<^verbatim>\<open>download\<close> exhausted its own request retries) or with a response: the parsed
  \<^verbatim>\<open>content-length\<close> header, the \<^verbatim>\<open>content-type\<close> header, the bytes that the
  stream delivers, and the error that ends the stream or the write, if any (a timeout
  among them).
\<close>

datatype attempt =
    DownloadThrows error
  | Response "int option" "string option" string "error option"

record env =
  sha256 :: "content \<Rightarrow> int list"
  image_size :: "content \<Rightarrow> int \<times> int"
  timestamp :: string
  sizeMB :: "int \<Rightarrow> string"
  net :: "nat \<Rightarrow> string \<Rightarrow> attempt"

definition getFileHash :: "env \<Rightarrow> fs \<Rightarrow> string \<Rightarrow> error + int list" where
  "getFileHash ev fs file =
     (if \<not> check (JStr file) MustExists TString then Inl (CheckError TString (JStr file))
      else
        (case map_of fs file of
           Some (File c) \<Rightarrow> Inr (sha256 ev c)
         | _ \<Rightarrow> Inl (Error (''getFileHash operation failed: file does not exists: '' @ file))))"

text \<open>
  The comparison loop of \<^verbatim>\<open>isValidFileHash\<close>, after the lengths were found equal:
  \<^verbatim>\<open>_hash[i] !== hash[i]\<close> for each index.
\<close>

fun hash_words_equal :: "int list \<Rightarrow> jsval list \<Rightarrow> bool" where
  "hash_words_equal [] [] = True"
| "hash_words_equal (w # ws) (v # vs) = (if JNum w \<noteq> v then False else hash_words_equal ws vs)"
| "hash_words_equal ws vs = True"

definition isValidFileHash :: "env \<Rightarrow> fs \<Rightarrow> string \<Rightarrow> jsval \<Rightarrow> error + bool" where
  "isValidFileHash ev fs file hash =
     (if \<not> check (JStr file) MustExists TString then Inl (CheckError TString (JStr file))
      else if \<not> check hash MustExists TArray then Inl (CheckError TArray hash)
      else
        (case getFileHash ev fs file of
           Inl e \<Rightarrow> Inl (Rethrown ''isValidFileHash operation failed: '' e)
         | Inr h \<Rightarrow>
             (case hash of
                JArr vs \<Rightarrow>
                  if length h \<noteq> length vs then Inr False else Inr (hash_words_equal h vs)
              | _ \<Rightarrow> Inl (CheckError TArray hash))))"

section \<open>Downloads: \<^verbatim>\<open>saveImage\<close> of \<^verbatim>\<open>modules/kobo-imgs-fs.js\<close>\<close>

record save_result =
  sr_contentLength :: int
  sr_bytesRead :: nat
  sr_contentType :: "string option"

text \<open>
  One turn of the download-and-write cycle, that is the body of the \<^verbatim>\<open>try\<close> block:
  \<^verbatim>\<open>download\<close>, the test of the content length, \<^verbatim>\<open>writeStream\<close> (which makes the
  directory, opens the file for writing and pipes the stream into it), and the
  comparison of the bytes read with the content length. The file keeps what was written
  to it when the turn fails after the write began.
\<close>

definition attempt_once ::
  "env \<Rightarrow> string \<Rightarrow> string \<Rightarrow> string \<Rightarrow> fs \<Rightarrow> nat \<Rightarrow> (error + save_result) \<times> fs" where
  "attempt_once ev i_url i_path i_name fs clock =
     (case net ev clock i_url of
        DownloadThrows e \<Rightarrow> (Inl e, fs)
      | Response contentLength contentType body streamError \<Rightarrow>
          (case contentLength of
             None \<Rightarrow> (Inl (Error (''download has not content-length: '' @ i_url)), fs)
           | Some len \<Rightarrow>
               if len = 0 then (Inl (Error (''download has not content-length: '' @ i_url)), fs)
               else
                 (case makeDirPath fs i_path of
                    Inl e \<Rightarrow> (Inl e, fs)
                  | Inr fs1 \<Rightarrow>
                      if dirExists fs1 (toPath [i_path, i_name])
                        then (Inl (Error ''EISDIR: illegal operation on a directory''), fs1)
                      else
                        let fs2 = AList.update (toPath [i_path, i_name]) (File (Bytes body)) fs1 in
                        (case streamError of
                           Some e \<Rightarrow> (Inl e, fs2)
                         | None \<Rightarrow>
                             if int (length body) \<noteq> len
                               then (Inl (Error ''incomplete download''), fs2)
                             else (Inr \<lparr>sr_contentLength = len, sr_bytesRead = length body,
                                        sr_contentType = contentType\<rparr>, fs2)))))"

text \<open>
  The cycle: \<^verbatim>\<open>while(!done && retries<=options.maxDownloadRetries && !result)\<close>, with
  \<^verbatim>\<open>retries\<close> starting at 1 and incremented by each failed turn. The clock counts
  the turns.
\<close>

function saveImage_loop ::
  "env \<Rightarrow> int \<Rightarrow> string \<Rightarrow> string \<Rightarrow> string \<Rightarrow> nat \<Rightarrow> fs \<Rightarrow> nat
     \<Rightarrow> save_result option \<times> fs \<times> nat" where
  "saveImage_loop ev maxRetries i_url i_path i_name retries fs clock =
     (if int retries \<le> maxRetries then
        (case attempt_once ev i_url i_path i_name fs clock of
           (Inr res, fs') \<Rightarrow> (Some res, fs', Suc clock)
         | (Inl e, fs') \<Rightarrow>
             saveImage_loop ev maxRetries i_url i_path i_name (Suc retries) fs' (Suc clock))
      else (None, fs, clock))"
  by pat_completeness auto
termination
  by (relation "measure (\<lambda>(ev, maxRetries, i_url, i_path, i_name, retries, fs, clock).
                  nat (maxRetries + 1 - int retries))") auto

declare saveImage_loop.simps [simp del]

text \<open>
  \<^verbatim>\<open>saveImage(i_url, i_path, i_name, options)\<close>. Of \<^verbatim>\<open>options\<close> the model keeps
  \<^verbatim>\<open>maxDownloadRetries\<close>, as the value that the configuration holds: a number when it
  comes from the run-configs file or from the defaults, a string when it comes from the
  command line or from the environment, and then the check throws before the cycle
  starts. The two log paths of \<^verbatim>\<open>options\<close> are results of \<^verbatim>\<open>join\<close> and
  \<^verbatim>\<open>resolve\<close>, so their checks pass. After the cycle, no result is the error
  \<^verbatim>\<open>saveImage fails after N retries\<close>.
\<close>

definition saveImage ::
  "env \<Rightarrow> jsval \<Rightarrow> string \<Rightarrow> string \<Rightarrow> string \<Rightarrow> fs \<Rightarrow> nat
     \<Rightarrow> (error + save_result) \<times> fs \<times> nat" where
  "saveImage ev maxDownloadRetries i_url i_path i_name fs clock =
     (if \<not> check (JStr i_url) MustExists TString then (Inl (CheckError TString (JStr i_url)), fs, clock)
      else if \<not> check (JStr i_path) MustExists TString
        then (Inl (CheckError TString (JStr i_path)), fs, clock)
      else if \<not> check (JStr i_name) MustExists TString
        then (Inl (CheckError TString (JStr i_name)), fs, clock)
      else if \<not> check maxDownloadRetries Defined TNumber
        then (Inl (CheckError TNumber maxDownloadRetries), fs, clock)
      else
        (case maxDownloadRetries of
           JNum maxRetries \<Rightarrow>
             (case saveImage_loop ev maxRetries i_url i_path i_name 1 fs clock of
                (None, fs', clock') \<Rightarrow>
                  (Inl (Error (''saveImage fails after '' @ show_js maxDownloadRetries @ '' retries'')),
                   fs', clock')
              | (Some res, fs', clock') \<Rightarrow> (Inr res, fs', clock'))
         | _ \<Rightarrow> (Inl (CheckError TNumber maxDownloadRetries), fs, clock)))"

section \<open>The action executor: \<^verbatim>\<open>updateImages\<close>\<close>

record configs =
  imagesPath :: string
  imagesDeletedPath :: string
  attachmentsMap :: string
  deleteImages :: bool
  maxDownloadRetries :: jsval

datatype status = StatusOk | StatusError

text \<open>
  What the run records for an entry (\<^verbatim>\<open>_result[e_key]\<close>): its status, the operation,
  and the detail of the action or the message of the error.
\<close>

record field_result =
  fr_id :: int
  fr_key :: string
  fr_status :: status
  fr_op :: string
  fr_action_detail :: "string option"
  fr_error :: "string option"

text \<open>
  The state of the run over one asset: the file system, the number of download attempts
  so far, the four lists that control duplicated names, the counters, the warnings, the
  errors and the results. The report lines written to the log are left out.
\<close>

record exec_state =
  es_fs :: fs
  es_clock :: nat
  imageNamesToKeep :: "string list"
  imageNamesToKeepDuplicated :: "string list"
  imageNamesToDelete :: "string list"
  imageNamesToDeleteDuplicated :: "string list"
  downloads :: nat
  upToDate :: nat
  deletes :: nat
  nones :: nat
  es_warnings :: "string list"
  es_errors :: "string list"
  es_results :: "field_result list"

definition push_ok :: "int \<Rightarrow> string \<Rightarrow> string \<Rightarrow> string \<Rightarrow> exec_state \<Rightarrow> exec_state" where
  "push_ok rid e_key op detail st =
     st\<lparr>es_results := es_results st @
          [\<lparr>fr_id = rid, fr_key = e_key, fr_status = StatusOk, fr_op = op,
            fr_action_detail = Some detail, fr_error = None\<rparr>]\<rparr>"

text \<open>
  The \<^verbatim>\<open>catch\<close> block of an entry: the result of the entry gets the status
  \<^verbatim>\<open>'error'\<close> and the message, the error is pushed to \<^verbatim>\<open>errors\<close>, and the loop
  continues.
\<close>

definition catch_error :: "int \<Rightarrow> string \<Rightarrow> string \<Rightarrow> error \<Rightarrow> exec_state \<Rightarrow> exec_state" where
  "catch_error rid e_key op e st =
     st\<lparr>es_results := es_results st @
          [\<lparr>fr_id = rid, fr_key = e_key, fr_status = StatusError, fr_op = op,
            fr_action_detail = None, fr_error = Some (message e)\<rparr>],
        es_errors := es_errors st @
          [''an error occurs while proccessing image - error: '' @ message e]\<rparr>"

definition bindE :: "error + 'a \<Rightarrow> ('a \<Rightarrow> error + 'b) \<Rightarrow> error + 'b" where
  "bindE m f = (case m of Inl e \<Rightarrow> Inl e | Inr x \<Rightarrow> f x)"

text \<open>\<^verbatim>\<open>getCsvString(str)\<close>: its check, then the quoting of a text with a comma.\<close>

definition getCsvString :: "jsval \<Rightarrow> error + string" where
  "getCsvString v =
     (if \<not> check v MustExists TString then Inl (CheckError TString v)
      else
        (case v of
           JStr s \<Rightarrow>
             Inr (if CHR '','' \<in> set s
                  then [CHR 0x22] @ concat (map (\<lambda>c. if c = CHR 0x22 then [CHR 0x5C, c] else [c]) s)
                         @ [CHR 0x22]
                  else s)
         | _ \<Rightarrow> Inl (CheckError TString v)))"

text \<open>
  The row of the ledger for an image that is up to date, built from the
  \<^verbatim>\<open>imgInfo\<close> of the state record, and the row for a downloaded image, which also
  passes the asset's uid through \<^verbatim>\<open>getCsvString\<close>. The template literal evaluates
  its parts from left to right.
\<close>

definition csv_row :: "bool \<Rightarrow> jsval \<Rightarrow> error + string" where
  "csv_row quoteUid imgInfo =
     bindE (if quoteUid then getCsvString (field imgInfo ''assetUid'')
            else Inr (show_js (field imgInfo ''assetUid''))) (\<lambda>assetUid.
     bindE (getCsvString (field imgInfo ''assetName'')) (\<lambda>assetName.
     bindE (getCsvString (field imgInfo ''name'')) (\<lambda>name.
     bindE (getCsvString (field imgInfo ''sizeMB'')) (\<lambda>sizeMB.
     bindE (getCsvString (field imgInfo ''type'')) (\<lambda>type.
     bindE (getCsvString (field imgInfo ''dimensions'')) (\<lambda>dimensions.
     bindE (getCsvString (field imgInfo ''hash'')) (\<lambda>hash.
       Inr (join_with '',''
              [assetUid, assetName, show_js (field imgInfo ''recordId''), name,
               show_js (field imgInfo ''size''), sizeMB, type, dimensions,
               show_js (field imgInfo ''width''), show_js (field imgInfo ''height'')]
            @ '', '' @ hash))))))))"

text \<open>
  \<^verbatim>\<open>getImgInfo(file)\<close>: the hash of the file's text and the size of the image, as an
  object.
\<close>

definition getImgInfo :: "env \<Rightarrow> fs \<Rightarrow> string \<Rightarrow> error + jsval" where
  "getImgInfo ev fs file =
     (if \<not> check (JStr file) MustExists TString then Inl (CheckError TString (JStr file))
      else
        (case map_of fs file of
           Some (File c) \<Rightarrow>
             (let (w, h) = image_size ev c in
              Inr (JObj [(''hash'', JArr (map JNum (sha256 ev c))),
                         (''width'', JNum w), (''height'', JNum h),
                         (''dimensions'',
                          JStr (''width: '' @ show_int w @ '' pixels, height: ''
                                  @ show_int h @ '' pixels''))]))
         | _ \<Rightarrow> Inl (Error (''getImgInfo operation failed: file does not exists: '' @ file))))"

text \<open>Assignment \<^verbatim>\<open>o.k = v\<close> to a property of an object.\<close>

fun set_field :: "jsval \<Rightarrow> string \<Rightarrow> jsval \<Rightarrow> jsval" where
  "set_field (JObj kvs) k v = JObj (AList.update k v kvs)"
| "set_field o' k v = o'"

text \<open>
  The freshness evaluation of a \<^verbatim>\<open>keep\<close> entry: the value of
  \<^verbatim>\<open>imgIsUpToDate\<close> after the cascade that compares the state record with the
  expected name, the resolved attachment id and the hash of the file.
\<close>

definition imgIsUpToDate ::
  "env \<Rightarrow> fs \<Rightarrow> bool \<Rightarrow> bool \<Rightarrow> jsval \<Rightarrow> string \<Rightarrow> int \<Rightarrow> string \<Rightarrow> error + bool" where
  "imgIsUpToDate ev fs imgExists e_has_attachment_map current_attachment_map_o img_new_name
       e_attachment_id e_img_file_path =
     (if imgExists \<and> e_has_attachment_map then
        (if field current_attachment_map_o ''imageName'' \<noteq> JStr img_new_name then Inr False
         else if field current_attachment_map_o ''attachmentId'' \<noteq> JNum e_attachment_id
           then Inr False
         else
           (case isValidFileHash ev fs e_img_file_path
                   (field (field current_attachment_map_o ''imgInfo'') ''hash'') of
              Inl e \<Rightarrow> Inl e
            | Inr valid \<Rightarrow> if \<not> valid then Inr False else Inr True))
      else Inr False)"

text \<open>
  The two branches of a \<^verbatim>\<open>keep\<close> entry. A body of a \<^verbatim>\<open>try\<close> block returns
  \<open>Inr\<close> the new state, or \<open>Inl\<close> the error it throws with the state at the throw.
\<close>

definition keep_up_to_date ::
  "string \<Rightarrow> int \<Rightarrow> string \<Rightarrow> jsval \<Rightarrow> exec_state \<Rightarrow> (error \<times> exec_state) + exec_state" where
  "keep_up_to_date e_images_info_file_path rid e_key current_attachment_map_o st =
     (case csv_row False (field current_attachment_map_o ''imgInfo'') of
        Inl e \<Rightarrow> Inl (e, st)
      | Inr row \<Rightarrow>
          (case appendFile (es_fs st) e_images_info_file_path row of
             Inl e \<Rightarrow> Inl (e, st)
           | Inr fs' \<Rightarrow>
               Inr ((push_ok rid e_key ''saveImage'' ''image up to date'' (st\<lparr>es_fs := fs'\<rparr>))
                      \<lparr>upToDate := Suc (upToDate st)\<rparr>)))"

definition keep_download ::
  "env \<Rightarrow> configs \<Rightarrow> string \<Rightarrow> string \<Rightarrow> string \<Rightarrow> string \<Rightarrow> string \<Rightarrow> int \<Rightarrow> string
     \<Rightarrow> action_entry \<Rightarrow> attachment \<Rightarrow> string \<Rightarrow> exec_state
     \<Rightarrow> (error \<times> exec_state) + exec_state" where
  "keep_download ev cfg a_uid a_name e_img_dir_path e_images_info_file_path
       e_attachment_map_file_path rid e_key e_value att img_new_name st =
     (case saveImage ev (maxDownloadRetries cfg) (download_url att) e_img_dir_path img_new_name
             (es_fs st) (es_clock st) of
        (Inl e, fs', clock') \<Rightarrow> Inl (e, st\<lparr>es_fs := fs', es_clock := clock'\<rparr>)
      | (Inr result, fs', clock') \<Rightarrow>
          let st1 = st\<lparr>es_fs := fs', es_clock := clock'\<rparr> in
          (case getImgInfo ev fs' (toPath [e_img_dir_path, img_new_name]) of
             Inl e \<Rightarrow> Inl (e, st1)
           | Inr imgInfo0 \<Rightarrow>
               if \<not> check (field imgInfo0 ''dimensions'') MustExists TString
                 then Inl (CheckError TString (field imgInfo0 ''dimensions''), st1)
               else if \<not> check (field imgInfo0 ''width'') Defined TNumber
                 then Inl (CheckError TNumber (field imgInfo0 ''width''), st1)
               else if \<not> check (field imgInfo0 ''height'') Defined TNumber
                 then Inl (CheckError TNumber (field imgInfo0 ''height''), st1)
               else if \<not> check (field imgInfo0 ''hash'') MustExists TString
                 then Inl (CheckError TString (field imgInfo0 ''hash''), st1)
               else
                 let imgInfo1 = set_field imgInfo0 ''assetUid'' (JStr a_uid);
                     imgInfo2 = set_field imgInfo1 ''assetName'' (JStr a_name);
                     imgInfo3 = set_field imgInfo2 ''recordId'' (JNum rid);
                     imgInfo4 = set_field imgInfo3 ''name'' (JStr img_new_name);
                     imgInfo5 = set_field imgInfo4 ''type''
                       (JStr (case sr_contentType result of
                                None \<Rightarrow> mimetype att
                              | Some t \<Rightarrow> if t \<noteq> [] then t else mimetype att));
                     imgInfo6 = set_field imgInfo5 ''size'' (JNum (sr_contentLength result));
                     imgInfo = set_field imgInfo6 ''sizeMB''
                       (JStr (sizeMB ev (sr_contentLength result) @ ''MB''))
                 in
                 (case csv_row True imgInfo of
                    Inl e \<Rightarrow> Inl (e, st1)
                  | Inr row \<Rightarrow>
                      (case appendFile fs' e_images_info_file_path row of
                         Inl e \<Rightarrow> Inl (e, st1)
                       | Inr fs2 \<Rightarrow>
                           (case writeFile fs2 e_attachment_map_file_path
                                   (Json (JObj [(''imageName'', JStr img_new_name),
                                                (''originalName'', ae_value e_value),
                                                (''attachmentId'', JNum (att_id att)),
                                                (''saveTimestamp'', JStr (timestamp ev)),
                                                (''imgInfo'', imgInfo)])) of
                              Inl e \<Rightarrow> Inl (e, st1\<lparr>es_fs := fs2\<rparr>)
                            | Inr fs3 \<Rightarrow>
                                Inr ((push_ok rid e_key ''saveImage'' ''image downloaded''
                                        (st1\<lparr>es_fs := fs3\<rparr>))
                                       \<lparr>downloads := Suc (downloads st)\<rparr>))))))"

text \<open>
  The \<^verbatim>\<open>try\<close> block of a \<^verbatim>\<open>keep\<close> entry: the target name, the check of
  duplicated names, the check that the target is not something else than a regular file,
  the freshness evaluation and its two branches.
\<close>

definition keep_body ::
  "env \<Rightarrow> configs \<Rightarrow> string \<Rightarrow> string \<Rightarrow> string \<Rightarrow> string \<Rightarrow> string \<Rightarrow> int \<Rightarrow> string
     \<Rightarrow> action_entry \<Rightarrow> jsval \<Rightarrow> bool \<Rightarrow> exec_state \<Rightarrow> (error \<times> exec_state) + exec_state" where
  "keep_body ev cfg a_uid a_name e_img_dir_path e_images_info_file_path
       e_attachment_map_file_path rid e_key e_value current_attachment_map_o
       e_has_attachment_map st =
     (case ae_attachment e_value of
        None \<Rightarrow> Inl (Error ''Cannot read properties of null (reading 'download_url')'', st)
      | Some att \<Rightarrow>
          let img_new_name = show_int rid @ ''_'' @ show_js (ae_value e_value) in
          if img_new_name \<in> set (imageNamesToKeep st) then
            Inl (Error (''in action 'keep': image name is duplicated: '' @ img_new_name),
                 st\<lparr>imageNamesToKeepDuplicated := imageNamesToKeepDuplicated st @ [img_new_name]\<rparr>)
          else
            let st1 = st\<lparr>imageNamesToKeep := imageNamesToKeep st @ [img_new_name]\<rparr>;
                e_img_file_path = toPath [e_img_dir_path, img_new_name];
                imgExists = fileExists (es_fs st1) e_img_file_path
            in
            if \<not> imgExists \<and> pathExists (es_fs st1) e_img_file_path then
              Inl (Error (''image name exists but is not a regular file - cannot store the image in: ''
                            @ e_img_file_path), st1)
            else
              (case imgIsUpToDate ev (es_fs st1) imgExists e_has_attachment_map
                      current_attachment_map_o img_new_name (att_id att) e_img_file_path of
                 Inl e \<Rightarrow> Inl (e, st1)
               | Inr upToDateNow \<Rightarrow>
                   if imgExists \<and> upToDateNow then
                     keep_up_to_date e_images_info_file_path rid e_key current_attachment_map_o st1
                   else
                     keep_download ev cfg a_uid a_name e_img_dir_path e_images_info_file_path
                       e_attachment_map_file_path rid e_key e_value att img_new_name st1))"

text \<open>
  The \<^verbatim>\<open>try\<close> block of a \<^verbatim>\<open>delete\<close> entry. The hash it compares the file with is
  the property \<^verbatim>\<open>hash\<close> of the state record itself
  (\<^verbatim>\<open>current_attachment_map_o.hash\<close>).
\<close>

definition delete_body ::
  "env \<Rightarrow> configs \<Rightarrow> string \<Rightarrow> string \<Rightarrow> int \<Rightarrow> string \<Rightarrow> jsval \<Rightarrow> bool \<Rightarrow> exec_state
     \<Rightarrow> (error \<times> exec_state) + exec_state" where
  "delete_body ev cfg a_uid a_name rid e_key current_attachment_map_o e_has_attachment_map st =
     (if e_has_attachment_map then
        let img_name = show_js (field current_attachment_map_o ''imageName'');
            img_hash = field current_attachment_map_o ''hash''
        in
        if img_name \<in> set (imageNamesToKeep st) then
          Inl (Error (''in action 'delete': image name is duplicated in to-keep list: '' @ img_name),
               st\<lparr>imageNamesToDeleteDuplicated := imageNamesToDeleteDuplicated st @ [img_name]\<rparr>)
        else if img_name \<in> set (imageNamesToDelete st) then
          Inl (Error (''in action 'delete': image name is duplicated in to-delete list: '' @ img_name),
               st\<lparr>imageNamesToDeleteDuplicated := imageNamesToDeleteDuplicated st @ [img_name]\<rparr>)
        else
          let st1 = st\<lparr>imageNamesToDelete := imageNamesToDelete st @ [img_name]\<rparr>;
              e_img_dir_path = toPath [imagesPath cfg, a_uid, a_name];
              e_img_file_path = toPath [e_img_dir_path, img_name]
          in
          if fileExists (es_fs st1) e_img_file_path then
            (case isValidFileHash ev (es_fs st1) e_img_file_path img_hash of
               Inl e \<Rightarrow> Inl (e, st1)
             | Inr valid \<Rightarrow>
                 if \<not> valid then
                   Inl (Error (''trying to remove an image with a different hash than the image that was stored originally : ''
                                 @ e_img_file_path), st1)
                 else if deleteImages cfg then
                   Inr ((push_ok rid e_key ''deleteImage'' ''image deleted''
                           (st1\<lparr>es_fs := snd (deletePath (es_fs st1) e_img_file_path)\<rparr>))
                          \<lparr>deletes := Suc (deletes st)\<rparr>)
                 else
                   (case mvFile (es_fs st1) e_img_file_path
                           (toPath [imagesDeletedPath cfg, img_name]) of
                      Inl e \<Rightarrow> Inl (e, st1)
                    | Inr fs' \<Rightarrow>
                        Inr ((push_ok rid e_key ''deleteImage''
                                ''image moved to 'images_deleted' dir'' (st1\<lparr>es_fs := fs'\<rparr>))
                               \<lparr>deletes := Suc (deletes st)\<rparr>)))
          else
            Inr ((push_ok rid e_key ''deleteImage'' ''image does not exists'' st1)
                   \<lparr>nones := Suc (nones st)\<rparr>)
      else
        Inr ((push_ok rid e_key ''deleteImage''
                ''image cannot be deleted in this phase: has no attachment info'' st)
               \<lparr>nones := Suc (nones st)\<rparr>))"

definition none_body :: "int \<Rightarrow> string \<Rightarrow> exec_state \<Rightarrow> exec_state" where
  "none_body rid e_key st =
     (push_ok rid e_key ''none''
        ''image field has name but attachment: if exists, will be moved to 'images_deleted' dir'' st)
       \<lparr>nones := Suc (nones st)\<rparr>"

definition run_try ::
  "int \<Rightarrow> string \<Rightarrow> string \<Rightarrow> (error \<times> exec_state) + exec_state \<Rightarrow> exec_state" where
  "run_try rid e_key op r =
     (case r of Inr st \<Rightarrow> st | Inl (e, st) \<Rightarrow> catch_error rid e_key op e st)"

text \<open>
  One turn of the loop over the entries of a record: the checks of the entry, the read
  of the state record, then the action. \<open>Inl\<close> is an error that nothing catches before
  \<^verbatim>\<open>run\<close>: it ends the step.
\<close>

definition exec_entry ::
  "env \<Rightarrow> configs \<Rightarrow> string \<Rightarrow> string \<Rightarrow> int \<Rightarrow> string \<times> action_entry \<Rightarrow> exec_state
     \<Rightarrow> error + exec_state" where
  "exec_entry ev cfg a_uid a_name rid entry st =
     (let e_key = fst entry; e_value = snd entry in
      if \<not> check (ae_value e_value) IfExists TString
        then Inl (CheckError TString (ae_value e_value))
      else if (case ae_attachment e_value of
                 None \<Rightarrow> False
               | Some att \<Rightarrow> \<not> check (JStr (download_url att)) MustExists TString)
        then Inl (CheckError TString (JStr []))
      else
        let e_img_dir_path = toPath [imagesPath cfg, a_uid, a_name];
            e_images_info_file_path = toPath [toPath [e_img_dir_path, ''data''], ''images_info.csv''];
            e_attachment_map_dir_path = toPath [attachmentsMap cfg, a_uid, show_int rid];
            e_attachment_map_file_path = toPath [e_attachment_map_dir_path, e_key @ ''.json'']
        in
        (case read_attachment_map (es_fs st) e_attachment_map_file_path (es_warnings st) of
           Inl e \<Rightarrow> Inl e
         | Inr (current_attachment_map_o, e_has_attachment_map, warns) \<Rightarrow>
             let st0 = st\<lparr>es_warnings := warns\<rparr> in
             (case ae_action e_value of
                Keep \<Rightarrow>
                  Inr (run_try rid e_key ''saveImage''
                         (keep_body ev cfg a_uid a_name e_img_dir_path e_images_info_file_path
                            e_attachment_map_file_path rid e_key e_value
                            current_attachment_map_o e_has_attachment_map st0))
              | Delete \<Rightarrow>
                  Inr (run_try rid e_key ''deleteImage''
                         (delete_body ev cfg a_uid a_name rid e_key
                            current_attachment_map_o e_has_attachment_map st0))
              | NoAction \<Rightarrow> Inr (none_body rid e_key st0))))"

fun exec_entries ::
  "env \<Rightarrow> configs \<Rightarrow> string \<Rightarrow> string \<Rightarrow> int \<Rightarrow> (string \<times> action_entry) list \<Rightarrow> exec_state
     \<Rightarrow> error + exec_state" where
  "exec_entries ev cfg a_uid a_name rid [] st = Inr st"
| "exec_entries ev cfg a_uid a_name rid (entry # rest) st =
     (case exec_entry ev cfg a_uid a_name rid entry st of
        Inl e \<Rightarrow> Inl e
      | Inr st' \<Rightarrow> exec_entries ev cfg a_uid a_name rid rest st')"

text \<open>The loop over the records of the map; each makes the directory of its state records.\<close>

fun exec_records ::
  "env \<Rightarrow> configs \<Rightarrow> string \<Rightarrow> string \<Rightarrow> emap list \<Rightarrow> exec_state \<Rightarrow> error + exec_state" where
  "exec_records ev cfg a_uid a_name [] st = Inr st"
| "exec_records ev cfg a_uid a_name (m # rest) st =
     (case makeDirPath (es_fs st) (toPath [attachmentsMap cfg, a_uid, show_int (emap_id m)]) of
        Inl e \<Rightarrow> Inl e
      | Inr fs' \<Rightarrow>
          (case exec_entries ev cfg a_uid a_name (emap_id m) (emap_fields m) (st\<lparr>es_fs := fs'\<rparr>) of
             Inl e \<Rightarrow> Inl e
           | Inr st' \<Rightarrow> exec_records ev cfg a_uid a_name rest st'))"

text \<open>
  The sweeper as \<^verbatim>\<open>updateImages\<close> starts it for an asset: the four setters, then
  \<^verbatim>\<open>run()\<close>, which completes before the loop over the records begins.
\<close>

definition start_cleaner ::
  "configs \<Rightarrow> cleaner \<Rightarrow> asset_map \<Rightarrow> fs \<Rightarrow> error + (cleaner \<times> fs)" where
  "start_cleaner cfg imc am fs =
     bindE (set_map imc (amap am)) (\<lambda>imc1.
     bindE (set_path fs imc1 (toPath [imagesPath cfg, uid (am_asset am), asset_name (am_asset am)]))
       (\<lambda>imc2.
     bindE (set_cleanedPath fs imc2
              (toPath [imagesDeletedPath cfg, uid (am_asset am), asset_name (am_asset am)]))
       (\<lambda>(imc3, fs1).
     bindE (set_deleteImages imc3 (deleteImages cfg)) (\<lambda>imc4.
       cleaner_run imc4 fs1))))"

definition ledger_header :: string where
  "ledger_header = ''assetUid,assetName,recordId,name,size,sizeMB,type,dimensions,width,height,hash''"

definition init_state :: "fs \<Rightarrow> nat \<Rightarrow> exec_state" where
  "init_state fs clock =
     \<lparr>es_fs = fs, es_clock = clock, imageNamesToKeep = [], imageNamesToKeepDuplicated = [],
      imageNamesToDelete = [], imageNamesToDeleteDuplicated = [],
      downloads = 0, upToDate = 0, deletes = 0, nones = 0,
      es_warnings = [], es_errors = [], es_results = []\<rparr>"

text \<open>
  One turn of the loop over the assets, for an asset with a non-empty map: the
  directories and the ledger of the asset, the sweep, then the records.
\<close>

definition update_asset ::
  "env \<Rightarrow> configs \<Rightarrow> cleaner \<Rightarrow> asset_map \<Rightarrow> fs \<Rightarrow> nat \<Rightarrow> error + (cleaner \<times> exec_state)" where
  "update_asset ev cfg imc am fs clock =
     (let a_uid = uid (am_asset am); a_name = asset_name (am_asset am) in
      if \<not> check (JStr a_uid) MustExists TString then Inl (CheckError TString (JStr a_uid))
      else if \<not> check (JStr a_name) MustExists TString then Inl (CheckError TString (JStr a_name))
      else
        let e_img_dir_path = toPath [imagesPath cfg, a_uid, a_name];
            e_img_data_dir_path = toPath [e_img_dir_path, ''data''];
            e_images_info_file_path = toPath [e_img_data_dir_path, ''images_info.csv'']
        in
        bindE (makeDirPath fs e_img_dir_path) (\<lambda>fs1.
        bindE (makeDirPath fs1 e_img_data_dir_path) (\<lambda>fs2.
        bindE (writeFile fs2 e_images_info_file_path (Bytes ledger_header)) (\<lambda>fs3.
        bindE (start_cleaner cfg imc am fs3) (\<lambda>(imc', fs4).
        bindE (exec_records ev cfg a_uid a_name (amap am) (init_state fs4 clock)) (\<lambda>st.
          Inr (imc', st)))))))"

text \<open>
  The loop over the assets (an asset with an empty map is skipped), with the one sweeper
  object of the step, and the end of the step: it returns its reports when no entry
  ended in an error, and throws otherwise, after every asset was processed.
\<close>

fun update_assets ::
  "env \<Rightarrow> configs \<Rightarrow> asset_map list \<Rightarrow> cleaner \<Rightarrow> fs \<Rightarrow> nat \<Rightarrow> exec_state list
     \<Rightarrow> error + (exec_state list \<times> fs \<times> nat)" where
  "update_assets ev cfg [] imc fs clock reports = Inr (reports, fs, clock)"
| "update_assets ev cfg (am # rest) imc fs clock reports =
     (if amap am = [] then update_assets ev cfg rest imc fs clock reports
      else
        (case update_asset ev cfg imc am fs clock of
           Inl e \<Rightarrow> Inl e
         | Inr (imc', st) \<Rightarrow>
             update_assets ev cfg rest imc' (es_fs st) (es_clock st) (reports @ [st])))"

definition updateImages ::
  "env \<Rightarrow> configs \<Rightarrow> asset_map list \<Rightarrow> fs \<Rightarrow> nat
     \<Rightarrow> error + ((error + exec_state list) \<times> fs \<times> nat)" where
  "updateImages ev cfg assets fs clock =
     (case update_assets ev cfg assets new_ImageCleaner fs clock [] of
        Inl e \<Rightarrow> Inl e
      | Inr (reports, fs', clock') \<Rightarrow>
          if list_all (\<lambda>st. es_errors st = []) reports then Inr (Inr reports, fs', clock')
          else Inr (Inl (Error ''step completed with failed operations''), fs', clock'))"

section \<open>What the claims say about the action map\<close>

text \<open>
  An asset enters the builder's loops when it has submissions and image fields; the
  others are skipped (and counted as filtered).
\<close>

definition eligible :: "asset \<Rightarrow> bool" where
  "eligible a = (submissions a \<noteq> [] \<and> imgs a \<noteq> [])"

text \<open>
  The correlation of value, attachment and action in an entry \<open>e\<close> built for the
  submission \<open>s\<close> and the field \<open>f\<close>, as the code has it: the test on the value is
  JavaScript truthiness, so a binding whose value is the empty string, \<^verbatim>\<open>null\<close>,
  \<open>0\<close> or \<^verbatim>\<open>false\<close> is classified like a missing binding.
\<close>

definition entry_invariant :: "submission \<Rightarrow> imgfield \<Rightarrow> action_entry \<Rightarrow> bool" where
  "entry_invariant s f e =
     (if \<not> truthy (ae_value e) then
        ae_action e = Delete \<and> ae_attachment e = None \<and> ae_warning e = None
      else
        (case findAttachment (ae_value e) (subm_attachments s) (subm_id s) of
           Inl err \<Rightarrow> False
         | Inr None \<Rightarrow>
             ae_action e = NoAction \<and> ae_attachment e = None
               \<and> ae_warning e = Some (warning_text (subm_id s) (autoname f) (ae_value e))
         | Inr (Some a) \<Rightarrow>
             ae_action e = Keep \<and> ae_attachment e = Some a \<and> ae_warning e = None))"

text \<open>
  The value and the key an entry records: those of the field's binding in
  \<^verbatim>\<open>@images_map\<close>, or \<^verbatim>\<open>undefined\<close> when the field has no binding.
\<close>

definition entry_binding :: "submission \<Rightarrow> imgfield \<Rightarrow> action_entry \<Rightarrow> bool" where
  "entry_binding s f e =
     (case map_of (images_map s) (autoname f) of
        Some [] \<Rightarrow> ae_value e = JUndefined \<and> ae_subm_mapped_key e = None
      | Some [[(k, v)]] \<Rightarrow> ae_value e = v \<and> ae_subm_mapped_key e = Some k
      | _ \<Rightarrow> False)"

text \<open>
  The map \<open>m\<close> built for the submission \<open>s\<close> holds the submission's id and exactly one
  entry per declared image field, each with the binding and the invariant above, and
  each warning of an entry is among the warnings \<open>ws\<close> of the asset.
\<close>

definition record_map_ok :: "imgfield list \<Rightarrow> string list \<Rightarrow> submission \<Rightarrow> emap \<Rightarrow> bool" where
  "record_map_ok flds ws s m =
     (emap_id m = subm_id s
      \<and> distinct (map fst (emap_fields m))
      \<and> fst ` set (emap_fields m) = autoname ` set flds
      \<and> list_all (\<lambda>f. case map_of (emap_fields m) (autoname f) of
                          None \<Rightarrow> False
                        | Some e \<Rightarrow> entry_binding s f e \<and> entry_invariant s f e
                            \<and> (case ae_warning e of None \<Rightarrow> True | Some w \<Rightarrow> w \<in> set ws)) flds)"

definition asset_map_ok :: "asset \<Rightarrow> asset_map \<Rightarrow> bool" where
  "asset_map_ok a r =
     (am_asset r = a
      \<and> list_all2 (record_map_ok (imgs a) (am_warnings r)) (submissions a) (amap r))"

section \<open>What the claims say about downloads\<close>

text \<open>
  The network delivers the image at the \<open>n\<close>-th attempt of the run: it answers with a
  content length that is not zero and a stream that ends without an error after exactly
  that many bytes.
\<close>

definition delivers :: "env \<Rightarrow> string \<Rightarrow> nat \<Rightarrow> bool" where
  "delivers ev url n =
     (case net ev n url of
        DownloadThrows e \<Rightarrow> False
      | Response contentLength contentType body streamError \<Rightarrow>
          (case contentLength of
             None \<Rightarrow> False
           | Some len \<Rightarrow> len \<noteq> 0 \<and> streamError = None \<and> int (length body) = len))"

text \<open>What the sweeper needs of an entry: a truthy value is a string and is not deleted.\<close>

definition sweepable :: "action_entry \<Rightarrow> bool" where
  "sweepable e =
     ((ae_action e = Delete \<longleftrightarrow> \<not> truthy (ae_value e)) \<and> check (ae_value e) IfExists TString)"

section \<open>Example inputs\<close>

text \<open>
  The scenario of the specification: one record (id 1721) of an asset with image fields;
  \<open>photoA\<close> is bound to \<^verbatim>\<open>photo.jpg\<close>, which the attachment 2395 matches,
  \<open>photoB\<close> has no binding, and \<open>photoC\<close> is bound to a name that no attachment has.
\<close>

definition ex_attachment :: attachment where
  "ex_attachment =
     \<lparr>mimetype = ''image/jpeg'', download_url = ''https://kc/media/photo.jpg'',
      filename = ''user/attachments/photo.jpg'', att_instance = 1721, att_id = 2395\<rparr>"

definition ex_submission :: submission where
  "ex_submission =
     \<lparr>subm_id = 1721, subm_attachments = [ex_attachment],
      images_map = [(''photoA'', [[(''group/photoA'', JStr ''photo.jpg'')]]),
                    (''photoB'', []),
                    (''photoC'', [[(''photoC'', JStr ''lost.jpg'')]])]\<rparr>"

definition ex_asset :: asset where
  "ex_asset =
     \<lparr>uid = ''aXf'', asset_name = ''Survey'',
      imgs = [\<lparr>autoname = ''photoA''\<rparr>, \<lparr>autoname = ''photoB''\<rparr>, \<lparr>autoname = ''photoC''\<rparr>],
      submissions = [ex_submission]\<rparr>"

definition ex_entry_keep :: action_entry where
  "ex_entry_keep =
     \<lparr>ae_value = JStr ''photo.jpg'', ae_attachment = Some ex_attachment, ae_action = Keep,
      ae_subm_mapped_key = Some ''group/photoA'', ae_warning = None\<rparr>"

definition ex_entry_delete :: action_entry where
  "ex_entry_delete =
     \<lparr>ae_value = JUndefined, ae_attachment = None, ae_action = Delete,
      ae_subm_mapped_key = None, ae_warning = None\<rparr>"

definition ex_entry_none :: action_entry where
  "ex_entry_none =
     \<lparr>ae_value = JStr ''lost.jpg'', ae_attachment = None, ae_action = NoAction,
      ae_subm_mapped_key = Some ''photoC'',
      ae_warning = Some (warning_text 1721 ''photoC'' (JStr ''lost.jpg''))\<rparr>"

definition ex_map :: "emap list" where
  "ex_map =
     [\<lparr>emap_id = 1721,
       emap_fields = [(''photoA'', ex_entry_keep), (''photoB'', ex_entry_delete),
                      (''photoC'', ex_entry_none)]\<rparr>]"

text \<open>
  A record whose image field is bound to the empty string, and one whose image field is
  bound to \<^verbatim>\<open>null\<close>.
\<close>

definition ex_asset_empty_value :: asset where
  "ex_asset_empty_value =
     \<lparr>uid = ''aXf'', asset_name = ''Survey'', imgs = [\<lparr>autoname = ''photoA''\<rparr>],
      submissions =
        [\<lparr>subm_id = 1721, subm_attachments = [ex_attachment],
          images_map = [(''photoA'', [[(''photoA'', JStr '''')]])]\<rparr>]\<rparr>"

definition ex_asset_null_value :: asset where
  "ex_asset_null_value =
     \<lparr>uid = ''aXf'', asset_name = ''Survey'', imgs = [\<lparr>autoname = ''photoA''\<rparr>],
      submissions =
        [\<lparr>subm_id = 1721, subm_attachments = [ex_attachment],
          images_map = [(''photoA'', [[(''photoA'', JNull)]])]\<rparr>]\<rparr>"

text \<open>A record with two bindings for one image field.\<close>

definition ex_asset_ambiguous :: asset where
  "ex_asset_ambiguous =
     \<lparr>uid = ''aXf'', asset_name = ''Survey'', imgs = [\<lparr>autoname = ''photoA''\<rparr>],
      submissions =
        [\<lparr>subm_id = 1721, subm_attachments = [ex_attachment],
          images_map = [(''photoA'', [[(''g1/photoA'', JStr ''photo.jpg'')],
                                      [(''g2/photoA'', JStr ''other.jpg'')]])]\<rparr>]\<rparr>"

text \<open>
  A run configuration, an environment whose network always delivers the eight bytes of
  the image, and the local tree of an earlier run: the directory of the asset's images
  with a file for the name that no attachment has, and the directory of the removed
  images.
\<close>

definition ex_configs :: configs where
  "ex_configs =
     \<lparr>imagesPath = ''out/images'', imagesDeletedPath = ''out/images_deleted'',
      attachmentsMap = ''out/.attachments_map'', deleteImages = True,
      maxDownloadRetries = JNum 3\<rparr>"

definition ex_env :: env where
  "ex_env =
     \<lparr>sha256 = (\<lambda>c. case c of Bytes s \<Rightarrow> map (\<lambda>ch. int (length s) + of_char ch) s | Json v \<Rightarrow> []),
      image_size = (\<lambda>c. (4, 3)),
      timestamp = ''2020-11-17-19-41-36'',
      sizeMB = (\<lambda>n. ''0''),
      net = (\<lambda>n url. Response (Some 8) (Some ''image/jpeg'') ''JPEGDATA'' None)\<rparr>"

definition ex_asset_map :: asset_map where
  "ex_asset_map =
     \<lparr>am_asset = ex_asset, amap = ex_map,
      am_warnings = [warning_text 1721 ''photoC'' (JStr ''lost.jpg'')]\<rparr>"

definition ex_fs_none_file :: fs where
  "ex_fs_none_file =
     [(''out/images/aXf/Survey'', Dir),
      (''out/images_deleted/aXf/Survey'', Dir),
      (''out/images/aXf/Survey/1721_lost.jpg'', File (Bytes ''LOSTDATA''))]"

text \<open>An environment whose network fails at every attempt.\<close>

definition ex_env_offline :: env where
  "ex_env_offline = ex_env\<lparr>net := (\<lambda>n url. DownloadThrows (Error ''download fails after 20 retries''))\<rparr>"

text \<open>
  An environment whose network sends half of the image at the first attempt of the run and
  the whole image from the second attempt on; and the configuration with the budget of
  downloads given as text, as the command line gives it.
\<close>

definition ex_env_flaky :: env where
  "ex_env_flaky =
     ex_env\<lparr>net := (\<lambda>n url. if n = 0 then Response (Some 8) (Some ''image/jpeg'') ''JPEG'' None
                            else Response (Some 8) (Some ''image/jpeg'') ''JPEGDATA'' None)\<rparr>"

definition ex_configs_text_budget :: configs where
  "ex_configs_text_budget = ex_configs\<lparr>maxDownloadRetries := JStr ''3''\<rparr>"

text \<open>
  The local tree after a first run over the scenario, starting from nothing: the
  directories, the ledger with its header, and the downloaded image.
\<close>

definition ex_fs_after_run :: fs where
  "ex_fs_after_run =
     [(''out/images/aXf/Survey'', Dir),
      (''out/images/aXf/Survey/data'', Dir),
      (''out/images/aXf/Survey/data/images_info.csv'', File (Bytes ledger_header)),
      (''out/images_deleted/aXf/Survey'', Dir),
      (''out/.attachments_map/aXf/1721'', Dir),
      (''out/images/aXf/Survey/1721_photo.jpg'', File (Bytes ''JPEGDATA''))]"





text \<open>
  A tree in which the field \<^verbatim>\<open>photoB\<close> of record 1721, which has no image any more,
  still has the image of an earlier run and the state record that describes it.
\<close>

definition ex_record_old :: jsval where
  "ex_record_old =
     JObj [(''imageName'', JStr ''1721_old.jpg''), (''originalName'', JStr ''old.jpg''),
           (''attachmentId'', JNum 2390), (''saveTimestamp'', JStr ''2020-11-16-10-00-00''),
           (''imgInfo'',
            JObj [(''hash'', JArr (map JNum (sha256 ex_env (Bytes ''OLDDATA'')))),
                  (''width'', JNum 4), (''height'', JNum 3),
                  (''dimensions'', JStr ''width: 4 pixels, height: 3 pixels''),
                  (''assetUid'', JStr ''aXf''), (''assetName'', JStr ''Survey''),
                  (''recordId'', JNum 1721), (''name'', JStr ''1721_old.jpg''),
                  (''type'', JStr ''image/jpeg''), (''size'', JNum 7),
                  (''sizeMB'', JStr ''0MB'')])]"

definition ex_fs_old_image :: fs where
  "ex_fs_old_image =
     [(''out/images/aXf/Survey'', Dir),
      (''out/images_deleted/aXf/Survey'', Dir),
      (''out/.attachments_map/aXf/1721'', Dir),
      (''out/images/aXf/Survey/1721_old.jpg'', File (Bytes ''OLDDATA'')),
      (''out/.attachments_map/aXf/1721/photoB.json'', File (Json ex_record_old))]"

text \<open>
  The same tree, met by a record whose image \<^verbatim>\<open>old.jpg\<close> moved from the field
  \<^verbatim>\<open>photoB\<close>, now unbound, to the field \<^verbatim>\<open>photoK\<close>: the asset, and its action map.
\<close>

definition ex_attachment_old :: attachment where
  "ex_attachment_old =
     \<lparr>mimetype = ''image/jpeg'', download_url = ''https://kc/media/old.jpg'',
      filename = ''user/attachments/old.jpg'', att_instance = 1721, att_id = 2390\<rparr>"

definition ex_asset_moved :: asset where
  "ex_asset_moved =
     \<lparr>uid = ''aXf'', asset_name = ''Survey'',
      imgs = [\<lparr>autoname = ''photoB''\<rparr>, \<lparr>autoname = ''photoK''\<rparr>],
      submissions =
        [\<lparr>subm_id = 1721, subm_attachments = [ex_attachment_old],
          images_map = [(''photoB'', []), (''photoK'', [[(''photoK'', JStr ''old.jpg'')]])]\<rparr>]\<rparr>"

definition ex_asset_map_moved :: asset_map where
  "ex_asset_map_moved =
     \<lparr>am_asset = ex_asset_moved,
      amap = [\<lparr>emap_id = 1721,
               emap_fields =
                 [(''photoB'', ex_entry_delete),
                  (''photoK'',
                   \<lparr>ae_value = JStr ''old.jpg'', ae_attachment = Some ex_attachment_old,
                    ae_action = Keep, ae_subm_mapped_key = Some ''photoK'',
                    ae_warning = None\<rparr>)]\<rparr>],
      am_warnings = []\<rparr>"

section \<open>Properties of the attachment matcher\<close>

lemma lastIndexOf_from_le: "lastIndexOf_from s n i \<le> int i"
  by (induction i) auto

lemma occurs_at_end:
  assumes "length n \<le> length s"
  shows "occurs_at s n (length s - length n) = suffix n s"
proof -
  have len: "length (drop (length s - length n) s) = length n"
    using assms by simp
  have "occurs_at s n (length s - length n) = (drop (length s - length n) s = n)"
    unfolding occurs_at_def using len by (metis order_refl take_all)
  also have "\<dots> = suffix n s"
  proof
    assume "drop (length s - length n) s = n"
    then show "suffix n s" by (metis suffix_drop)
  next
    assume "suffix n s"
    then obtain zs where "s = zs @ n" by (auto simp: suffix_def)
    then show "drop (length s - length n) s = n" by simp
  qed
  finally show ?thesis .
qed

lemma lastIndexOf_from_hit: "occurs_at s n i \<Longrightarrow> lastIndexOf_from s n i = int i"
  by (cases i) simp_all

lemma lastIndexOf_from_miss: "\<not> occurs_at s n i \<Longrightarrow> lastIndexOf_from s n i < int i"
proof (cases i)
  case 0
  assume "\<not> occurs_at s n i"
  with 0 show ?thesis by simp
next
  case (Suc j)
  assume "\<not> occurs_at s n i"
  with Suc have "lastIndexOf_from s n i = lastIndexOf_from s n j" by simp
  moreover have "lastIndexOf_from s n j \<le> int j" by (rule lastIndexOf_from_le)
  ultimately show ?thesis using Suc by simp
qed

lemma lastIndexOf_suffix:
  "(\<not> (lastIndexOf s n = - 1 \<or> lastIndexOf s n \<noteq> int (length s) - int (length n)))
     = suffix n s"
proof (cases "length s < length n")
  case True
  then have "\<not> suffix n s" by (auto simp: suffix_def)
  with True show ?thesis by (simp add: lastIndexOf_def)
next
  case False
  then have le: "length n \<le> length s" by simp
  define k where "k = length s - length n"
  have k: "int (length s) - int (length n) = int k" using le by (simp add: k_def)
  have lio: "lastIndexOf s n = lastIndexOf_from s n k"
    using False by (simp add: lastIndexOf_def k_def)
  have suf: "occurs_at s n k = suffix n s"
    using occurs_at_end[OF le] by (simp add: k_def)
  show ?thesis
  proof (cases "occurs_at s n k")
    case True
    then have "lastIndexOf_from s n k = int k" by (rule lastIndexOf_from_hit)
    with True suf lio k show ?thesis by simp
  next
    case False
    then have "lastIndexOf_from s n k < int k" by (rule lastIndexOf_from_miss)
    with False suf lio k show ?thesis by simp
  qed
qed

lemma findAttachment_loop_total:
  assumes "\<forall>a\<in>set as. wf_attachment a"
  shows "\<exists>r. findAttachment_loop name as acc = Inr r"
  using assms
  by (induction as arbitrary: acc)
     (auto simp: wf_attachment_def Let_def split: option.splits)

lemma findAttachment_loop_None:
  assumes "\<forall>a\<in>set as. wf_attachment a"
    and "findAttachment_loop name as acc = Inr None"
  shows "acc = None \<and> (\<forall>a\<in>set as. \<not> qualifies name a)"
  using assms
proof (induction as arbitrary: acc)
  case Nil
  then show ?case by simp
next
  case (Cons a as)
  have wf: "mimetype a \<noteq> []" "download_url a \<noteq> []" "filename a \<noteq> []"
    using Cons.prems(1) by (simp_all add: wf_attachment_def)
  have rest: "\<forall>a\<in>set as. wf_attachment a" using Cons.prems(1) by simp
  show ?case
  proof (cases "qualifies name a")
    case False
    then have "findAttachment_loop name (a # as) acc = findAttachment_loop name as acc"
      using wf lastIndexOf_suffix[of "filename a" name]
      by (auto simp: qualifies_def Let_def)
    with Cons.prems(2) Cons.IH[OF rest] False show ?thesis by simp
  next
    case True
    then have m: "\<not> (lastIndexOf (filename a) name = - 1 \<or>
        lastIndexOf (filename a) name \<noteq> int (length (filename a)) - int (length name))"
      using lastIndexOf_suffix[of "filename a" name] by (simp add: qualifies_def)
    from True have img: "image_mimetype (mimetype a)" by (simp add: qualifies_def)
    have "\<exists>x. findAttachment_loop name (a # as) acc = findAttachment_loop name as (Some x)"
      using wf img m by (cases acc) (auto simp: Let_def)
    then obtain x where "findAttachment_loop name as (Some x) = Inr None"
      using Cons.prems(2) by auto
    from Cons.IH[OF rest this] show ?thesis by simp
  qed
qed

lemma findAttachment_loop_Some:
  assumes "\<forall>a\<in>set as. wf_attachment a"
    and "findAttachment_loop name as acc = Inr (Some x)"
  shows "((x \<in> set as \<and> qualifies name x) \<or> acc = Some x)
       \<and> (\<forall>a\<in>set as. qualifies name a \<longrightarrow> att_id a \<le> att_id x)
       \<and> (\<forall>r. acc = Some r \<longrightarrow> att_id r \<le> att_id x)"
  using assms
proof (induction as arbitrary: acc)
  case Nil
  then show ?case by simp
next
  case (Cons a as)
  have wf: "mimetype a \<noteq> []" "download_url a \<noteq> []" "filename a \<noteq> []"
    using Cons.prems(1) by (simp_all add: wf_attachment_def)
  have rest: "\<forall>a\<in>set as. wf_attachment a" using Cons.prems(1) by simp
  show ?case
  proof (cases "qualifies name a")
    case False
    then have "findAttachment_loop name (a # as) acc = findAttachment_loop name as acc"
      using wf lastIndexOf_suffix[of "filename a" name]
      by (auto simp: qualifies_def Let_def)
    with Cons.prems(2) have "findAttachment_loop name as acc = Inr (Some x)" by simp
    from Cons.IH[OF rest this] False show ?thesis by auto
  next
    case True
    then have m: "\<not> (lastIndexOf (filename a) name = - 1 \<or>
        lastIndexOf (filename a) name \<noteq> int (length (filename a)) - int (length name))"
      using lastIndexOf_suffix[of "filename a" name] by (simp add: qualifies_def)
    from True have img: "image_mimetype (mimetype a)" by (simp add: qualifies_def)
    show ?thesis
    proof (cases acc)
      case None
      then have "findAttachment_loop name (a # as) acc = findAttachment_loop name as (Some a)"
        using wf img m by (simp add: Let_def)
      with Cons.prems(2) have "findAttachment_loop name as (Some a) = Inr (Some x)" by simp
      from Cons.IH[OF rest this] True None show ?thesis by auto
    next
      case (Some r)
      show ?thesis
      proof (cases "att_id a > att_id r")
        case gt: True
        then have "findAttachment_loop name (a # as) acc = findAttachment_loop name as (Some a)"
          using wf img m Some by (simp add: Let_def)
        with Cons.prems(2) have "findAttachment_loop name as (Some a) = Inr (Some x)" by simp
        from Cons.IH[OF rest this] True Some gt show ?thesis by auto
      next
        case le: False
        then have "findAttachment_loop name (a # as) acc = findAttachment_loop name as acc"
          using wf img m Some by (simp add: Let_def)
        with Cons.prems(2) have "findAttachment_loop name as acc = Inr (Some x)" by simp
        from Cons.IH[OF rest this] True Some le show ?thesis by auto
      qed
    qed
  qed
qed

text \<open>
  Claim C6. For a non-empty name and well-formed attachment descriptors,
  \<^verbatim>\<open>findAttachment\<close> returns without throwing; it returns \<^verbatim>\<open>null\<close> exactly when no
  attachment qualifies, where an attachment qualifies when its mimetype begins with
  \<^verbatim>\<open>image\<close> and its filename ends with the name; otherwise it returns a qualifying
  attachment of the list whose id is greatest among the qualifying ones, strictly greater
  than the id of every other qualifying attachment when their ids are pairwise different.
  The function is pure: it reads its arguments and returns a copy of the descriptor.
\<close>

theorem findAttachment_spec:
  assumes "name \<noteq> []" and "\<forall>a\<in>set atts. wf_attachment a"
  shows "\<exists>r. findAttachment (JStr name) atts rid = Inr r
           \<and> (r = None \<longleftrightarrow> (\<forall>a\<in>set atts. \<not> qualifies name a))
           \<and> (\<forall>x. r = Some x \<longrightarrow>
                  x \<in> set atts \<and> qualifies name x
                \<and> (\<forall>a\<in>set atts. qualifies name a \<longrightarrow> att_id a \<le> att_id x)
                \<and> (inj_on att_id {a \<in> set atts. qualifies name a} \<longrightarrow>
                     (\<forall>a\<in>set atts. qualifies name a \<and> a \<noteq> x \<longrightarrow> att_id a < att_id x)))"
proof -
  obtain r where loop: "findAttachment_loop name atts None = Inr r"
    using findAttachment_loop_total[OF assms(2)] by blast
  have fa: "findAttachment (JStr name) atts rid = Inr r"
  proof (cases "atts = []")
    case True
    with loop assms(1) show ?thesis by (simp add: findAttachment_def)
  next
    case False
    with loop assms(1) show ?thesis by (simp add: findAttachment_def)
  qed
  have none: "r = None \<longleftrightarrow> (\<forall>a\<in>set atts. \<not> qualifies name a)"
  proof
    assume "r = None"
    with loop findAttachment_loop_None[OF assms(2)] show "\<forall>a\<in>set atts. \<not> qualifies name a"
      by blast
  next
    assume nq: "\<forall>a\<in>set atts. \<not> qualifies name a"
    show "r = None"
    proof (cases r)
      case None
      then show ?thesis .
    next
      case (Some x)
      with loop findAttachment_loop_Some[OF assms(2), of name None x] nq show ?thesis by auto
    qed
  qed
  have some: "x \<in> set atts \<and> qualifies name x
                \<and> (\<forall>a\<in>set atts. qualifies name a \<longrightarrow> att_id a \<le> att_id x)
                \<and> (inj_on att_id {a \<in> set atts. qualifies name a} \<longrightarrow>
                     (\<forall>a\<in>set atts. qualifies name a \<and> a \<noteq> x \<longrightarrow> att_id a < att_id x))"
    if rx: "r = Some x" for x
  proof -
    from loop rx findAttachment_loop_Some[OF assms(2), of name None x]
    have mem: "x \<in> set atts" and q: "qualifies name x"
      and mx: "\<forall>a\<in>set atts. qualifies name a \<longrightarrow> att_id a \<le> att_id x"
      by auto
    have strict: "att_id a < att_id x"
      if inj: "inj_on att_id {a \<in> set atts. qualifies name a}"
        and a: "a \<in> set atts" "qualifies name a" "a \<noteq> x" for a
    proof -
      from mx a have "att_id a \<le> att_id x" by blast
      moreover have "att_id a \<noteq> att_id x"
        using inj a mem q by (auto simp: inj_on_def)
      ultimately show ?thesis by simp
    qed
    from mem q mx strict show ?thesis by blast
  qed
  from fa none some show ?thesis by blast
qed

text \<open>
  The theorem at a concrete list: a text attachment whose name matches, an image whose
  filename only contains the name, and two images whose filenames end with it.
\<close>

theorem findAttachment_spec_witness:
  "\<exists>r. findAttachment (JStr ''photo.jpg'')
         [\<lparr>mimetype = ''text/plain'', download_url = ''u0'', filename = ''a/photo.jpg'',
            att_instance = 1721, att_id = 2500\<rparr>,
          \<lparr>mimetype = ''image/jpeg'', download_url = ''u1'', filename = ''a/photo.jpg.bak'',
            att_instance = 1721, att_id = 2600\<rparr>,
          \<lparr>mimetype = ''image/jpeg'', download_url = ''u2'', filename = ''a/photo.jpg'',
            att_instance = 1721, att_id = 2395\<rparr>,
          \<lparr>mimetype = ''image/jpeg'', download_url = ''u3'', filename = ''b/photo.jpg'',
            att_instance = 1721, att_id = 2390\<rparr>] 1721 = Inr r
     \<and> r = Some \<lparr>mimetype = ''image/jpeg'', download_url = ''u2'', filename = ''a/photo.jpg'',
            att_instance = 1721, att_id = 2395\<rparr>"
proof -
  let ?atts = "[\<lparr>mimetype = ''text/plain'', download_url = ''u0'', filename = ''a/photo.jpg'',
            att_instance = 1721, att_id = 2500\<rparr>,
          \<lparr>mimetype = ''image/jpeg'', download_url = ''u1'', filename = ''a/photo.jpg.bak'',
            att_instance = 1721, att_id = 2600\<rparr>,
          \<lparr>mimetype = ''image/jpeg'', download_url = ''u2'', filename = ''a/photo.jpg'',
            att_instance = 1721, att_id = 2395\<rparr>,
          \<lparr>mimetype = ''image/jpeg'', download_url = ''u3'', filename = ''b/photo.jpg'',
            att_instance = 1721, att_id = (2390::int)\<rparr>]"
  have h1: "''photo.jpg'' \<noteq> []" by simp
  have h2: "\<forall>a\<in>set ?atts. wf_attachment a" by (simp add: wf_attachment_def)
  from findAttachment_spec[OF h1 h2, of 1721]
  obtain r where r: "findAttachment (JStr ''photo.jpg'') ?atts 1721 = Inr r"
    and rest: "\<forall>x. r = Some x \<longrightarrow> x \<in> set ?atts \<and> qualifies ''photo.jpg'' x
         \<and> (\<forall>a\<in>set ?atts. qualifies ''photo.jpg'' a \<longrightarrow> att_id a \<le> att_id x)"
    and none: "r = None \<longleftrightarrow> (\<forall>a\<in>set ?atts. \<not> qualifies ''photo.jpg'' a)"
    by blast
  have q2: "qualifies ''photo.jpg'' (?atts ! 2)"
    by (simp add: qualifies_def image_mimetype_def suffix_def)
  have nq0: "\<not> qualifies ''photo.jpg'' (?atts ! 0)"
    by (simp add: qualifies_def image_mimetype_def)
  have nq1: "\<not> qualifies ''photo.jpg'' (?atts ! 1)"
    by (auto simp: qualifies_def suffix_def Cons_eq_append_conv)
  from none q2 obtain x where x: "r = Some x" by (cases r) auto
  with rest have xin: "x \<in> set ?atts" and xq: "qualifies ''photo.jpg'' x"
    and xmax: "\<forall>a\<in>set ?atts. qualifies ''photo.jpg'' a \<longrightarrow> att_id a \<le> att_id x"
    by blast+
  from xmax q2 have "2395 \<le> att_id x" by simp
  with xin xq nq0 nq1 have "x = ?atts ! 2" by auto
  with r x show ?thesis by simp
qed

section \<open>Properties of the action map builder\<close>

lemma classify_entry:
  assumes "classify s f key v = Inr e"
  shows "ae_value e = v \<and> ae_subm_mapped_key e = key \<and> entry_invariant s f e"
  using assms
  by (auto simp: classify_def entry_invariant_def split: if_splits sum.splits option.splits)

lemma field_action_entry:
  assumes "field_action s f = Inr e"
  shows "entry_binding s f e \<and> entry_invariant s f e"
proof -
  from assms obtain bs where bs: "map_of (images_map s) (autoname f) = Some bs"
    by (auto simp: field_action_def split: if_splits option.splits)
  show ?thesis
  proof (cases bs)
    case Nil
    with assms bs have "classify s f None JUndefined = Inr e"
      by (auto simp: field_action_def split: if_splits)
    from classify_entry[OF this] bs Nil show ?thesis
      by (simp add: entry_binding_def)
  next
    case (Cons b rest)
    with assms bs have rest: "rest = []"
      by (auto simp: field_action_def split: if_splits)
    with assms bs Cons obtain k v where b: "b = [(k, v)]"
      and c: "classify s f (Some k) v = Inr e"
      by (auto simp: field_action_def split: if_splits list.splits)
    from classify_entry[OF c] bs Cons rest b show ?thesis
      by (simp add: entry_binding_def)
  qed
qed

lemma imgfield_eq: "autoname (f::imgfield) = autoname g \<Longrightarrow> f = g"
  by simp

lemma build_fields_Inr:
  assumes "build_fields s fs (m, ws) = Inr (m', ws')"
  shows "(\<forall>f\<in>set fs. \<exists>e. field_action s f = Inr e \<and> map_of m' (autoname f) = Some e
            \<and> (\<forall>w. ae_warning e = Some w \<longrightarrow> w \<in> set ws'))
       \<and> (\<forall>k. k \<notin> autoname ` set fs \<longrightarrow> map_of m' k = map_of m k)
       \<and> fst ` set m' = fst ` set m \<union> autoname ` set fs
       \<and> (distinct (map fst m) \<longrightarrow> distinct (map fst m'))
       \<and> set ws \<subseteq> set ws'"
  using assms
proof (induction fs arbitrary: m ws)
  case Nil
  then show ?case by simp
next
  case (Cons f fs)
  from Cons.prems obtain e where e: "field_action s f = Inr e"
    by (cases "field_action s f") auto
  define m1 where "m1 = AList.update (autoname f) e m"
  define ws1 where "ws1 = (case ae_warning e of None \<Rightarrow> ws | Some w \<Rightarrow> ws @ [w])"
  from Cons.prems e have step: "build_fields s fs (m1, ws1) = Inr (m', ws')"
    by (simp add: m1_def ws1_def)
  note IH = Cons.IH[OF step]
  have ws1: "set ws \<subseteq> set ws1" "\<forall>w. ae_warning e = Some w \<longrightarrow> w \<in> set ws1"
    by (auto simp: ws1_def split: option.splits)
  have sub: "set ws1 \<subseteq> set ws'" using IH by blast
  have head: "\<exists>e. field_action s f = Inr e \<and> map_of m' (autoname f) = Some e
            \<and> (\<forall>w. ae_warning e = Some w \<longrightarrow> w \<in> set ws')"
  proof (cases "autoname f \<in> autoname ` set fs")
    case True
    then obtain g where g: "g \<in> set fs" "autoname g = autoname f" by auto
    then have "g = f" by (simp add: imgfield_eq)
    with g IH show ?thesis by blast
  next
    case False
    with IH have "map_of m' (autoname f) = map_of m1 (autoname f)" by blast
    then have "map_of m' (autoname f) = Some e" by (simp add: m1_def update_conv')
    with e ws1 sub show ?thesis by blast
  qed
  have unchanged: "map_of m' k = map_of m k" if "k \<notin> autoname ` set (f # fs)" for k
  proof -
    from that IH have "map_of m' k = map_of m1 k" by auto
    with that show ?thesis by (simp add: m1_def update_conv')
  qed
  have keys: "fst ` set m' = fst ` set m \<union> autoname ` set (f # fs)"
    using IH by (auto simp: m1_def dom_update)
  have dist: "distinct (map fst m) \<longrightarrow> distinct (map fst m')"
    using IH by (simp add: m1_def distinct_update)
  have "set ws \<subseteq> set ws'" using ws1 sub by blast
  with head IH unchanged keys dist show ?case by auto
qed

lemma record_map_ok_mono:
  assumes "record_map_ok fs ws s m" and "set ws \<subseteq> set ws'"
  shows "record_map_ok fs ws' s m"
  using assms
  by (auto simp: record_map_ok_def list_all_iff split: option.splits)

lemma build_fields_ok:
  assumes "build_fields s fs ([], ws) = Inr (m, ws')"
  shows "record_map_ok fs ws' s \<lparr>emap_id = subm_id s, emap_fields = m\<rparr> \<and> set ws \<subseteq> set ws'"
proof -
  note B = build_fields_Inr[OF assms]
  from B have ents: "\<forall>f\<in>set fs. \<exists>e. field_action s f = Inr e \<and> map_of m (autoname f) = Some e
            \<and> (\<forall>w. ae_warning e = Some w \<longrightarrow> w \<in> set ws')"
    by blast
  from B have keys: "fst ` set m = autoname ` set fs" by simp
  from B have dist: "distinct (map fst m)" by simp
  from B have sub: "set ws \<subseteq> set ws'" by blast
  have "list_all (\<lambda>f. case map_of m (autoname f) of
                          None \<Rightarrow> False
                        | Some e \<Rightarrow> entry_binding s f e \<and> entry_invariant s f e
                            \<and> (case ae_warning e of None \<Rightarrow> True | Some w \<Rightarrow> w \<in> set ws')) fs"
    unfolding list_all_iff
  proof
    fix f assume "f \<in> set fs"
    with ents obtain e where e: "field_action s f = Inr e" "map_of m (autoname f) = Some e"
      and w: "\<forall>w. ae_warning e = Some w \<longrightarrow> w \<in> set ws'"
      by blast
    from field_action_entry[OF e(1)] have "entry_binding s f e" "entry_invariant s f e"
      by simp_all
    moreover from w have "case ae_warning e of None \<Rightarrow> True | Some w \<Rightarrow> w \<in> set ws'"
      by (cases "ae_warning e") simp_all
    ultimately show "case map_of m (autoname f) of
            None \<Rightarrow> False
          | Some e \<Rightarrow> entry_binding s f e \<and> entry_invariant s f e
               \<and> (case ae_warning e of None \<Rightarrow> True | Some w \<Rightarrow> w \<in> set ws')"
      using e(2) by simp
  qed
  with keys dist sub show ?thesis by (simp add: record_map_ok_def)
qed

lemma build_submissions_Inr:
  assumes "build_submissions fs ss (ms, ws) = Inr (ms', ws')"
  shows "\<exists>new. ms' = ms @ new \<and> list_all2 (record_map_ok fs ws') ss new \<and> set ws \<subseteq> set ws'"
  using assms
proof (induction ss arbitrary: ms ws)
  case Nil
  then show ?case by simp
next
  case (Cons s ss)
  from Cons.prems obtain m ws1 where b: "build_fields s fs ([], ws) = Inr (m, ws1)"
    by (cases "build_fields s fs ([], ws)") auto
  with Cons.prems have
    "build_submissions fs ss (ms @ [\<lparr>emap_id = subm_id s, emap_fields = m\<rparr>], ws1) = Inr (ms', ws')"
    by simp
  from Cons.IH[OF this] obtain new where
    new: "ms' = (ms @ [\<lparr>emap_id = subm_id s, emap_fields = m\<rparr>]) @ new"
      "list_all2 (record_map_ok fs ws') ss new" "set ws1 \<subseteq> set ws'"
    by blast
  from build_fields_ok[OF b] new(3)
  have "record_map_ok fs ws' s \<lparr>emap_id = subm_id s, emap_fields = m\<rparr>" "set ws \<subseteq> set ws'"
    by (auto intro: record_map_ok_mono)
  with new
  have "ms' = ms @ (\<lparr>emap_id = subm_id s, emap_fields = m\<rparr> # new)
      \<and> list_all2 (record_map_ok fs ws') (s # ss) (\<lparr>emap_id = subm_id s, emap_fields = m\<rparr> # new)
      \<and> set ws \<subseteq> set ws'"
    by simp
  then show ?case by blast
qed

lemma build_assets_Inr:
  assumes "build_assets as rs = Inr rs'"
  shows "\<exists>new. rs' = rs @ new \<and> list_all2 asset_map_ok (filter eligible as) new"
  using assms
proof (induction as arbitrary: rs)
  case Nil
  then show ?case by simp
next
  case (Cons a as)
  show ?case
  proof (cases "eligible a")
    case False
    with Cons.prems have "build_assets as rs = Inr rs'"
      by (auto simp: eligible_def split: if_splits)
    from Cons.IH[OF this] False show ?thesis by simp
  next
    case True
    with Cons.prems obtain ms ws where
      b: "build_submissions (imgs a) (submissions a) ([], []) = Inr (ms, ws)"
      by (cases "build_submissions (imgs a) (submissions a) ([], [])")
         (auto simp: eligible_def split: if_splits)
    with Cons.prems True have
      "build_assets as (rs @ [\<lparr>am_asset = a, amap = ms, am_warnings = ws\<rparr>]) = Inr rs'"
      by (auto simp: eligible_def split: if_splits)
    from Cons.IH[OF this] obtain new where
      new: "rs' = (rs @ [\<lparr>am_asset = a, amap = ms, am_warnings = ws\<rparr>]) @ new"
        "list_all2 asset_map_ok (filter eligible as) new"
      by blast
    from build_submissions_Inr[OF b]
    have "asset_map_ok a \<lparr>am_asset = a, amap = ms, am_warnings = ws\<rparr>"
      by (simp add: asset_map_ok_def)
    with new True
    have "rs' = rs @ (\<lparr>am_asset = a, amap = ms, am_warnings = ws\<rparr> # new)
        \<and> list_all2 asset_map_ok (filter eligible (a # as))
             (\<lparr>am_asset = a, amap = ms, am_warnings = ws\<rparr> # new)"
      by simp
    then show ?thesis by blast
  qed
qed

lemma buildActionMap_ok:
  assumes "buildActionMap assets = Inr results"
  shows "list_all2 asset_map_ok (filter eligible assets) results"
  using build_assets_Inr[of assets "[]" results] assms by (simp add: buildActionMap_def)

lemma buildActionMap_entry:
  assumes ok: "buildActionMap assets = Inr results"
    and i: "i < length (filter eligible assets)"
    and j: "j < length (submissions (filter eligible assets ! i))"
    and f: "f \<in> set (imgs (filter eligible assets ! i))"
  shows "i < length results \<and> am_asset (results ! i) = filter eligible assets ! i
       \<and> j < length (amap (results ! i))
       \<and> emap_id (amap (results ! i) ! j) = subm_id (submissions (filter eligible assets ! i) ! j)
       \<and> distinct (map fst (emap_fields (amap (results ! i) ! j)))
       \<and> (\<exists>e. map_of (emap_fields (amap (results ! i) ! j)) (autoname f) = Some e
             \<and> entry_binding (submissions (filter eligible assets ! i) ! j) f e
             \<and> entry_invariant (submissions (filter eligible assets ! i) ! j) f e
             \<and> (\<forall>w. ae_warning e = Some w \<longrightarrow> w \<in> set (am_warnings (results ! i))))"
proof -
  define a where "a = filter eligible assets ! i"
  define r where "r = results ! i"
  from buildActionMap_ok[OF ok] have all: "list_all2 asset_map_ok (filter eligible assets) results" .
  then have len: "length results = length (filter eligible assets)"
    by (simp add: list_all2_lengthD)
  from all i have "asset_map_ok a r"
    unfolding a_def r_def by (rule list_all2_nthD)
  then have ar: "am_asset r = a"
    and recs: "list_all2 (record_map_ok (imgs a) (am_warnings r)) (submissions a) (amap r)"
    by (simp_all add: asset_map_ok_def)
  from recs have len2: "length (amap r) = length (submissions a)"
    by (simp add: list_all2_lengthD)
  define s where "s = submissions a ! j"
  define m where "m = amap r ! j"
  from recs j have rm: "record_map_ok (imgs a) (am_warnings r) s m"
    unfolding s_def m_def a_def by (rule list_all2_nthD)
  then have ids: "emap_id m = subm_id s" "distinct (map fst (emap_fields m))"
    by (simp_all add: record_map_ok_def)
  from f have "f \<in> set (imgs a)" by (simp add: a_def)
  with rm have la: "case map_of (emap_fields m) (autoname f) of
                 None \<Rightarrow> False
               | Some e \<Rightarrow> entry_binding s f e \<and> entry_invariant s f e
                   \<and> (case ae_warning e of None \<Rightarrow> True | Some w \<Rightarrow> w \<in> set (am_warnings r))"
    by (simp add: record_map_ok_def list_all_iff)
  then obtain e where e: "map_of (emap_fields m) (autoname f) = Some e"
    by (cases "map_of (emap_fields m) (autoname f)") simp_all
  with la have "entry_binding s f e" "entry_invariant s f e"
    "\<forall>w. ae_warning e = Some w \<longrightarrow> w \<in> set (am_warnings r)"
    by (auto split: option.splits)
  with e have "\<exists>e. map_of (emap_fields m) (autoname f) = Some e
             \<and> entry_binding s f e \<and> entry_invariant s f e
             \<and> (\<forall>w. ae_warning e = Some w \<longrightarrow> w \<in> set (am_warnings r))"
    by blast
  with len i ar len2 j ids show ?thesis
    unfolding a_def[symmetric] r_def[symmetric] s_def[symmetric] m_def[symmetric]
    by simp
qed

lemma build_fields_error:
  assumes "f \<in> set fs" and "isl (field_action s f)"
  shows "isl (build_fields s fs (m, ws))"
  using assms
proof (induction fs arbitrary: m ws)
  case Nil
  then show ?case by simp
next
  case (Cons g fs)
  show ?case
  proof (cases "field_action s g")
    case (Inl e)
    then show ?thesis by simp
  next
    case (Inr entry)
    with Cons.prems have "f \<in> set fs" by auto
    from Cons.IH[OF this Cons.prems(2)] Inr show ?thesis by simp
  qed
qed

lemma build_submissions_error:
  assumes "s \<in> set ss" and "\<And>ws. isl (build_fields s fs ([], ws))"
  shows "isl (build_submissions fs ss (ms, ws))"
  using assms(1)
proof (induction ss arbitrary: ms ws)
  case Nil
  then show ?case by simp
next
  case (Cons t ss)
  show ?case
  proof (cases "build_fields t fs ([], ws)")
    case (Inl e)
    then show ?thesis by simp
  next
    case (Inr p)
    obtain m ws1 where p: "p = (m, ws1)" by (cases p)
    from Inr assms(2)[of ws] have "t \<noteq> s" by auto
    with Cons.prems have "s \<in> set ss" by simp
    from Cons.IH[OF this] Inr p show ?thesis by simp
  qed
qed

lemma build_assets_error:
  assumes "a \<in> set as" and "eligible a"
    and "isl (build_submissions (imgs a) (submissions a) ([], []))"
  shows "isl (build_assets as rs)"
  using assms(1)
proof (induction as arbitrary: rs)
  case Nil
  then show ?case by simp
next
  case (Cons b as)
  show ?case
  proof (cases "b = a")
    case True
    with assms(2,3) show ?thesis
      by (cases "build_submissions (imgs a) (submissions a) ([], [])")
         (auto simp: eligible_def)
  next
    case False
    with Cons.prems have "a \<in> set as" by simp
    from Cons.IH[OF this] show ?thesis
      by (cases "build_submissions (imgs b) (submissions b) ([], [])")
         (auto split: prod.splits)
  qed
qed

text \<open>
  Claim C1, as amended. When the builder returns, every eligible asset has a result, every
  submission of it a map with the submission's id, and every declared image field exactly
  one entry in that map (the keys of the map are pairwise different). The entry holds the
  value bound to the field (\<^verbatim>\<open>undefined\<close> when there is no binding) and one of the
  three actions: \<^verbatim>\<open>delete\<close>, with no attachment and no warning, when the value is
  absent or falsy (the empty string, \<^verbatim>\<open>null\<close>, \<open>0\<close>, \<^verbatim>\<open>false\<close>); and
  when the value is truthy the matcher returns, and the action is \<^verbatim>\<open>keep\<close>
  with the descriptor the matcher resolved, or \<^verbatim>\<open>none\<close> with no attachment and a
  warning that names the record id, the field and the value, the warning being among the
  warnings of the asset.
\<close>

theorem action_classification:
  assumes "buildActionMap assets = Inr results"
    and "i < length (filter eligible assets)" and "a = filter eligible assets ! i"
    and "j < length (submissions a)" and "s = submissions a ! j"
    and "f \<in> set (imgs a)"
  shows "\<exists>e. i < length results \<and> am_asset (results ! i) = a
           \<and> j < length (amap (results ! i))
           \<and> emap_id (amap (results ! i) ! j) = subm_id s
           \<and> distinct (map fst (emap_fields (amap (results ! i) ! j)))
           \<and> map_of (emap_fields (amap (results ! i) ! j)) (autoname f) = Some e
           \<and> (map_of (images_map s) (autoname f) = Some [] \<longrightarrow>
                 ae_value e = JUndefined \<and> ae_action e = Delete \<and> ae_attachment e = None)
           \<and> (\<forall>k v. map_of (images_map s) (autoname f) = Some [[(k, v)]] \<longrightarrow> ae_value e = v)
           \<and> (\<not> truthy (ae_value e) \<longrightarrow>
                 ae_action e = Delete \<and> ae_attachment e = None \<and> ae_warning e = None)
           \<and> (truthy (ae_value e) \<longrightarrow>
                 (\<exists>x. findAttachment (ae_value e) (subm_attachments s) (subm_id s) = Inr x
                    \<and> (x = None \<longrightarrow>
                          ae_action e = NoAction \<and> ae_attachment e = None
                        \<and> ae_warning e = Some (warning_text (subm_id s) (autoname f) (ae_value e))
                        \<and> warning_text (subm_id s) (autoname f) (ae_value e)
                            \<in> set (am_warnings (results ! i)))
                    \<and> (\<forall>att. x = Some att \<longrightarrow>
                          ae_action e = Keep \<and> ae_attachment e = Some att
                        \<and> ae_warning e = None)))"
proof -
  from assms(4,6) have j: "j < length (submissions (filter eligible assets ! i))"
    and f: "f \<in> set (imgs (filter eligible assets ! i))"
    by (simp_all add: assms(3))
  from buildActionMap_entry[OF assms(1,2) j f] obtain e where
    basic: "i < length results" "am_asset (results ! i) = a" "j < length (amap (results ! i))"
      "emap_id (amap (results ! i) ! j) = subm_id s"
      "distinct (map fst (emap_fields (amap (results ! i) ! j)))"
      "map_of (emap_fields (amap (results ! i) ! j)) (autoname f) = Some e"
    and bind: "entry_binding s f e" and inv: "entry_invariant s f e"
    and warn: "\<forall>w. ae_warning e = Some w \<longrightarrow> w \<in> set (am_warnings (results ! i))"
    unfolding assms(3)[symmetric] assms(5)[symmetric] by blast
  have falsy: "\<not> truthy (ae_value e) \<longrightarrow>
      ae_action e = Delete \<and> ae_attachment e = None \<and> ae_warning e = None"
    using inv by (simp add: entry_invariant_def)
  have absent: "map_of (images_map s) (autoname f) = Some [] \<longrightarrow>
      ae_value e = JUndefined \<and> ae_action e = Delete \<and> ae_attachment e = None"
    using bind falsy by (auto simp: entry_binding_def)
  have present: "\<forall>k v. map_of (images_map s) (autoname f) = Some [[(k, v)]] \<longrightarrow> ae_value e = v"
    using bind by (auto simp: entry_binding_def)
  have truthy_case: "truthy (ae_value e) \<longrightarrow>
      (\<exists>x. findAttachment (ae_value e) (subm_attachments s) (subm_id s) = Inr x
         \<and> (x = None \<longrightarrow>
               ae_action e = NoAction \<and> ae_attachment e = None
             \<and> ae_warning e = Some (warning_text (subm_id s) (autoname f) (ae_value e))
             \<and> warning_text (subm_id s) (autoname f) (ae_value e)
                 \<in> set (am_warnings (results ! i)))
         \<and> (\<forall>att. x = Some att \<longrightarrow>
               ae_action e = Keep \<and> ae_attachment e = Some att \<and> ae_warning e = None))"
    using inv warn
    by (cases "findAttachment (ae_value e) (subm_attachments s) (subm_id s)")
       (auto simp: entry_invariant_def split: option.splits)
  from basic absent present falsy truthy_case show ?thesis by blast
qed

text \<open>
  The theorem at the scenario of the specification, for the field \<open>photoC\<close>, whose value
  no attachment matches: the builder returns, and the entry is \<^verbatim>\<open>none\<close> with the
  warning.
\<close>

theorem action_classification_witness:
  "\<exists>e. map_of (emap_fields (ex_map ! 0)) ''photoC'' = Some e
      \<and> ae_action e = NoAction \<and> ae_attachment e = None
      \<and> ae_warning e = Some (warning_text 1721 ''photoC'' (JStr ''lost.jpg''))"
proof -
  define results where "results = [\<lparr>am_asset = ex_asset, amap = ex_map,
              am_warnings = [warning_text 1721 ''photoC'' (JStr ''lost.jpg'')]\<rparr>]"
  define f where "f = \<lparr>autoname = ''photoC''\<rparr>"
  have run: "buildActionMap [ex_asset] = Inr results"
    unfolding results_def by code_simp
  have el: "filter eligible [ex_asset] = [ex_asset]"
    by (simp add: eligible_def ex_asset_def)
  have i: "0 < length (filter eligible [ex_asset])" using el by simp
  have a: "ex_asset = filter eligible [ex_asset] ! 0" using el by simp
  have j: "0 < length (submissions ex_asset)" by (simp add: ex_asset_def)
  have s: "ex_submission = submissions ex_asset ! 0" by (simp add: ex_asset_def)
  have f: "f \<in> set (imgs ex_asset)" by (simp add: ex_asset_def f_def)
  from action_classification[OF run i a j s f] obtain e where
    e: "map_of (emap_fields (amap (results ! 0) ! 0)) (autoname f) = Some e"
    and v: "\<forall>k v. map_of (images_map ex_submission) (autoname f) = Some [[(k, v)]]
              \<longrightarrow> ae_value e = v"
    and t: "truthy (ae_value e) \<longrightarrow>
      (\<exists>x. findAttachment (ae_value e) (subm_attachments ex_submission) (subm_id ex_submission) = Inr x
         \<and> (x = None \<longrightarrow>
               ae_action e = NoAction \<and> ae_attachment e = None
             \<and> ae_warning e = Some (warning_text (subm_id ex_submission) (autoname f) (ae_value e))
             \<and> warning_text (subm_id ex_submission) (autoname f) (ae_value e)
                 \<in> set (am_warnings (results ! 0)))
         \<and> (\<forall>att. x = Some att \<longrightarrow>
               ae_action e = Keep \<and> ae_attachment e = Some att \<and> ae_warning e = None))"
    by blast
  have "map_of (images_map ex_submission) (autoname f) = Some [[(''photoC'', JStr ''lost.jpg'')]]"
    by (simp add: ex_submission_def f_def)
  with v have val: "ae_value e = JStr ''lost.jpg''" by blast
  have fa: "findAttachment (JStr ''lost.jpg'') (subm_attachments ex_submission)
              (subm_id ex_submission) = Inr None"
    by code_simp
  have id: "subm_id ex_submission = 1721" by (simp add: ex_submission_def)
  from t val fa id have "ae_action e = NoAction \<and> ae_attachment e = None
      \<and> ae_warning e = Some (warning_text 1721 ''photoC'' (JStr ''lost.jpg''))"
    by (simp add: f_def)
  moreover from e have "map_of (emap_fields (ex_map ! 0)) ''photoC'' = Some e"
    by (simp add: results_def f_def)
  ultimately show ?thesis by blast
qed

text \<open>
  Claim C1 as stated fails for a value that is present but falsy: the field \<open>photoA\<close> of
  record 1721 is bound to the empty string, for which no attachment resolves; the entry
  is \<^verbatim>\<open>delete\<close>, not \<^verbatim>\<open>none\<close>, and no warning is emitted.
\<close>

theorem action_classification_counterexample:
  "buildActionMap [ex_asset_empty_value]
     = Inr [\<lparr>am_asset = ex_asset_empty_value,
             amap = [\<lparr>emap_id = 1721,
                      emap_fields =
                        [(''photoA'',
                          \<lparr>ae_value = JStr '''', ae_attachment = None, ae_action = Delete,
                           ae_subm_mapped_key = Some ''photoA'', ae_warning = None\<rparr>)]\<rparr>],
             am_warnings = []\<rparr>]"
  by code_simp

text \<open>
  Claim C9. If some image field of some submission of an eligible asset has more than one
  binding in \<^verbatim>\<open>@images_map\<close>, the loop body throws (for a non-empty autoname, the
  error \<^verbatim>\<open>expected one or zero entries\<close>), the builder returns no result, produces no
  warning, and the step ends the process.
\<close>

theorem ambiguous_binding_aborts:
  assumes "a \<in> set assets" and "eligible a"
    and "s \<in> set (submissions a)" and "f \<in> set (imgs a)"
    and "map_of (images_map s) (autoname f) = Some bs" and "length bs > 1"
  shows "(\<exists>e. buildActionMap assets = Inl e)
       \<and> run_step (buildActionMap assets) = Exit1
       \<and> (autoname f \<noteq> [] \<longrightarrow>
            field_action s f = Inl (Error ''expected one or zero entries in @@images_map element''))"
proof -
  have fa: "isl (field_action s f)"
    using assms(5,6) by (simp add: field_action_def)
  have "isl (build_fields s (imgs a) ([], ws))" for ws
    using build_fields_error[OF assms(4) fa] .
  then have "isl (build_submissions (imgs a) (submissions a) ([], []))"
    using build_submissions_error[OF assms(3)] by blast
  then have "isl (buildActionMap assets)"
    unfolding buildActionMap_def using build_assets_error[OF assms(1,2)] by blast
  then obtain e where e: "buildActionMap assets = Inl e"
    by (cases "buildActionMap assets") auto
  then have "run_step (buildActionMap assets) = Exit1" by (simp add: run_step_def)
  moreover have "autoname f \<noteq> [] \<longrightarrow>
      field_action s f = Inl (Error ''expected one or zero entries in @@images_map element'')"
    using assms(5,6) by (simp add: field_action_def)
  ultimately show ?thesis using e by blast
qed

text \<open>The theorem at a record with two bindings for the field \<open>photoA\<close>.\<close>

theorem ambiguous_binding_aborts_witness:
  "buildActionMap [ex_asset_ambiguous]
     = Inl (Error ''expected one or zero entries in @@images_map element'')
   \<and> run_step (buildActionMap [ex_asset_ambiguous]) = Exit1"
proof -
  let ?s = "\<lparr>subm_id = 1721, subm_attachments = [ex_attachment],
          images_map = [(''photoA'', [[(''g1/photoA'', JStr ''photo.jpg'')],
                                      [(''g2/photoA'', JStr ''other.jpg'')]])]\<rparr>"
  let ?f = "\<lparr>autoname = ''photoA''\<rparr>"
  let ?bs = "[[(''g1/photoA'', JStr ''photo.jpg'')], [(''g2/photoA'', JStr ''other.jpg'')]]"
  have h1: "ex_asset_ambiguous \<in> set [ex_asset_ambiguous]" by simp
  have h2: "eligible ex_asset_ambiguous" by (simp add: eligible_def ex_asset_ambiguous_def)
  have h3: "?s \<in> set (submissions ex_asset_ambiguous)" by (simp add: ex_asset_ambiguous_def)
  have h4: "?f \<in> set (imgs ex_asset_ambiguous)" by (simp add: ex_asset_ambiguous_def)
  have h5: "map_of (images_map ?s) (autoname ?f) = Some ?bs" by simp
  have h6: "length ?bs > 1" by simp
  from ambiguous_binding_aborts[OF h1 h2 h3 h4 h5 h6]
  have ex: "\<exists>e. buildActionMap [ex_asset_ambiguous] = Inl e"
    and r: "run_step (buildActionMap [ex_asset_ambiguous]) = Exit1"
    and fa: "field_action ?s ?f = Inl (Error ''expected one or zero entries in @@images_map element'')"
    by simp_all
  from ex obtain e where e: "buildActionMap [ex_asset_ambiguous] = Inl e" by blast
  have "buildActionMap [ex_asset_ambiguous] = build_assets [ex_asset_ambiguous] []"
    by (simp add: buildActionMap_def)
  also have "\<dots> = Inl (Error ''expected one or zero entries in @@images_map element'')"
    using fa by (simp add: ex_asset_ambiguous_def)
  finally show ?thesis using r by simp
qed

section \<open>Properties of the orphan sweeper\<close>

lemma entry_invariant_value:
  assumes "entry_invariant s f e"
  shows "(ae_action e = Delete \<longleftrightarrow> \<not> truthy (ae_value e))
       \<and> check (ae_value e) IfExists TString"
proof (cases "truthy (ae_value e)")
  case False
  with assms show ?thesis by (simp add: entry_invariant_def)
next
  case True
  with assms obtain x where x: "findAttachment (ae_value e) (subm_attachments s) (subm_id s) = Inr x"
    by (cases "findAttachment (ae_value e) (subm_attachments s) (subm_id s)")
       (auto simp: entry_invariant_def)
  then have "check (ae_value e) MustExists TString"
    by (auto simp: findAttachment_def split: if_splits)
  moreover from assms True x have "ae_action e \<noteq> Delete"
    by (cases x) (auto simp: entry_invariant_def)
  ultimately show ?thesis using True by simp
qed

lemma record_map_ok_sweepable:
  assumes "record_map_ok flds ws s m" and "(k, e) \<in> set (emap_fields m)"
  shows "sweepable e"
proof -
  from assms(1) have dist: "distinct (map fst (emap_fields m))"
    and keys: "fst ` set (emap_fields m) = autoname ` set flds"
    and all: "list_all (\<lambda>f. case map_of (emap_fields m) (autoname f) of
                          None \<Rightarrow> False
                        | Some e \<Rightarrow> entry_binding s f e \<and> entry_invariant s f e
                            \<and> (case ae_warning e of None \<Rightarrow> True | Some w \<Rightarrow> w \<in> set ws)) flds"
    by (simp_all add: record_map_ok_def)
  from assms(2) have "k \<in> fst ` set (emap_fields m)" by force
  with keys obtain f where f: "f \<in> set flds" "autoname f = k" by auto
  from dist assms(2) have "map_of (emap_fields m) k = Some e" by simp
  with all f have "entry_invariant s f e" by (auto simp: list_all_iff)
  from entry_invariant_value[OF this] show ?thesis by (simp add: sweepable_def)
qed

lemma name_entry_sweepable:
  assumes "sweepable e"
  shows "\<exists>c'. name_entry rid e c = Inr c' \<and> c_deletes c' = c_deletes c
            \<and> c_isRunning c' = c_isRunning c"
  using assms by (auto simp: name_entry_def sweepable_def Let_def)

lemma name_entries_sweepable:
  assumes "\<forall>(k, e)\<in>set es. sweepable e"
  shows "\<exists>c'. name_entries rid es c = Inr c' \<and> c_deletes c' = c_deletes c"
  using assms
proof (induction es arbitrary: c)
  case Nil
  then show ?case by simp
next
  case (Cons p es)
  obtain k e where p: "p = (k, e)" by (cases p)
  with Cons.prems have "sweepable e" by simp
  from name_entry_sweepable[OF this, of rid c] obtain c1 where
    c1: "name_entry rid e c = Inr c1" "c_deletes c1 = c_deletes c" by blast
  from Cons.prems have "\<forall>(k, e)\<in>set es. sweepable e" by simp
  from Cons.IH[OF this, of c1] c1 p show ?case by simp
qed

lemma name_maps_sweepable:
  assumes "\<forall>m\<in>set ms. \<forall>(k, e)\<in>set (emap_fields m). sweepable e"
  shows "\<exists>c'. name_maps ms c = Inr c' \<and> c_deletes c' = c_deletes c"
  using assms
proof (induction ms arbitrary: c)
  case Nil
  then show ?case by simp
next
  case (Cons m ms)
  from Cons.prems have "\<forall>(k, e)\<in>set (emap_fields m). sweepable e" by simp
  from name_entries_sweepable[OF this, of "emap_id m" c] obtain c1 where
    c1: "name_entries (emap_id m) (emap_fields m) c = Inr c1" "c_deletes c1 = c_deletes c"
    by blast
  from Cons.prems have "\<forall>m\<in>set ms. \<forall>(k, e)\<in>set (emap_fields m). sweepable e" by simp
  from Cons.IH[OF this, of c1] c1 show ?case by simp
qed

lemma builder_entries_sweepable:
  assumes "buildActionMap assets = Inr results" and "r \<in> set results"
    and "m \<in> set (amap r)" and "(k, e) \<in> set (emap_fields m)"
  shows "sweepable e"
proof -
  from buildActionMap_ok[OF assms(1)]
  have all: "list_all2 asset_map_ok (filter eligible assets) results" .
  from assms(2) obtain i where i: "i < length results" "results ! i = r"
    by (auto simp: in_set_conv_nth)
  from all i have "asset_map_ok (filter eligible assets ! i) r"
    by (auto dest: list_all2_nthD2)
  then have recs: "list_all2 (record_map_ok (imgs (filter eligible assets ! i)) (am_warnings r))
                     (submissions (filter eligible assets ! i)) (amap r)"
    by (simp add: asset_map_ok_def)
  from assms(3) obtain j where j: "j < length (amap r)" "amap r ! j = m"
    by (auto simp: in_set_conv_nth)
  from recs j have "record_map_ok (imgs (filter eligible assets ! i)) (am_warnings r)
                      (submissions (filter eligible assets ! i) ! j) m"
    by (auto dest: list_all2_nthD2)
  from record_map_ok_sweepable[OF this assms(4)] show ?thesis .
qed

lemma builder_map_nonempty:
  assumes "buildActionMap assets = Inr results" and "r \<in> set results"
  shows "amap r \<noteq> []"
proof -
  from buildActionMap_ok[OF assms(1)]
  have all: "list_all2 asset_map_ok (filter eligible assets) results" .
  from assms(2) obtain i where i: "i < length results" "results ! i = r"
    by (auto simp: in_set_conv_nth)
  define a where "a = filter eligible assets ! i"
  from all i have ok: "asset_map_ok a r"
    unfolding a_def by (auto dest: list_all2_nthD2)
  from all i have "i < length (filter eligible assets)"
    by (simp add: list_all2_lengthD)
  then have "a \<in> set (filter eligible assets)"
    unfolding a_def by (rule nth_mem)
  then have "submissions a \<noteq> []" by (simp add: eligible_def)
  moreover from ok have "length (amap r) = length (submissions a)"
    by (auto simp: asset_map_ok_def dest: list_all2_lengthD)
  ultimately show ?thesis by auto
qed

lemma clean_file_no_deletes:
  assumes "c_deletes c = []"
  shows "clean_file c fs file =
           (if file \<notin> set (c_keeps c) then
              (if c_deleteImages c then Inr (clean_delete c fs file) else clean_move c fs file)
            else if file \<in> set (c_nones c) then clean_move c fs file
            else Inr (c, fs))"
  using assms by (simp add: clean_file_def)

text \<open>
  Claim C10, as amended. In every action map that the builder produces, an entry is a
  \<^verbatim>\<open>delete\<close> entry exactly when its value is falsy (\<^verbatim>\<open>undefined\<close> for a field
  without a binding, or the falsy raw value of the binding), so a truthy value is present
  exactly when the action is \<^verbatim>\<open>keep\<close> or \<^verbatim>\<open>none\<close>. Setting such a map on a
  sweeper that is not running succeeds and leaves its delete-name list as it was: on a
  new sweeper the list stays empty. With an empty delete-name list the sweep treats a file
  by its membership in the keep-name list alone: every file that is not a keep name is
  disposed of by the policy (deleted or moved), also the file of a \<^verbatim>\<open>delete\<close> entry.
\<close>

theorem builder_maps_have_no_delete_names:
  assumes "buildActionMap assets = Inr results" and "r \<in> set results"
    and "\<not> c_isRunning c"
  shows "(\<forall>m\<in>set (amap r). \<forall>(k, e)\<in>set (emap_fields m).
            (ae_action e = Delete \<longleftrightarrow> \<not> truthy (ae_value e)))
       \<and> (\<exists>c'. set_map c (amap r) = Inr c' \<and> c_deletes c' = c_deletes c
             \<and> (c_deletes c = [] \<longrightarrow>
                  (\<forall>fs file. clean_file c' fs file =
                     (if file \<notin> set (c_keeps c') then
                        (if c_deleteImages c' then Inr (clean_delete c' fs file)
                         else clean_move c' fs file)
                      else if file \<in> set (c_nones c') then clean_move c' fs file
                      else Inr (c', fs)))))"
proof -
  have sw: "\<forall>m\<in>set (amap r). \<forall>(k, e)\<in>set (emap_fields m). sweepable e"
    using builder_entries_sweepable[OF assms(1,2)] by blast
  then have first: "\<forall>m\<in>set (amap r). \<forall>(k, e)\<in>set (emap_fields m).
            (ae_action e = Delete \<longleftrightarrow> \<not> truthy (ae_value e))"
    by (auto simp: sweepable_def)
  have ne: "amap r \<noteq> []" using builder_map_nonempty[OF assms(1,2)] .
  define c0 where "c0 = resetCounters (c\<lparr>c_map := amap r, c_wasRan := False\<rparr>)"
  from name_maps_sweepable[OF sw, of c0] obtain c1 where
    c1: "name_maps (amap r) c0 = Inr c1" "c_deletes c1 = c_deletes c0" by blast
  have "c_deletes c0 = c_deletes c" by (simp add: c0_def resetCounters_def)
  with c1 ne assms(3)
  have "\<exists>c'. set_map c (amap r) = Inr c' \<and> c_deletes c' = c_deletes c"
    by (simp add: set_map_def c0_def)
  then obtain c' where c': "set_map c (amap r) = Inr c'" "c_deletes c' = c_deletes c"
    by blast
  have "c_deletes c = [] \<longrightarrow>
          (\<forall>fs file. clean_file c' fs file =
             (if file \<notin> set (c_keeps c') then
                (if c_deleteImages c' then Inr (clean_delete c' fs file)
                 else clean_move c' fs file)
              else if file \<in> set (c_nones c') then clean_move c' fs file
              else Inr (c', fs)))"
    using c'(2) clean_file_no_deletes[of c'] by simp
  with first c' show ?thesis by blast
qed

text \<open>The theorem at the map of the scenario, set on a new sweeper.\<close>

theorem builder_maps_have_no_delete_names_witness:
  "\<exists>c'. set_map new_ImageCleaner (amap ex_asset_map) = Inr c' \<and> c_deletes c' = []"
proof -
  have run: "buildActionMap [ex_asset] = Inr [ex_asset_map]"
    by code_simp
  have mem: "ex_asset_map \<in> set [ex_asset_map]" by simp
  have idle: "\<not> c_isRunning new_ImageCleaner" by (simp add: new_ImageCleaner_def)
  from builder_maps_have_no_delete_names[OF run mem idle]
  obtain c' where "set_map new_ImageCleaner (amap ex_asset_map) = Inr c'"
    and "c_deletes c' = c_deletes new_ImageCleaner"
    by blast
  then show ?thesis by (auto simp: new_ImageCleaner_def)
qed

text \<open>
  Claim C10 as stated fails for a binding whose value is \<^verbatim>\<open>null\<close>: the entry is a
  \<^verbatim>\<open>delete\<close> entry and its value is \<^verbatim>\<open>null\<close>, not \<^verbatim>\<open>undefined\<close>.
\<close>

theorem builder_maps_have_no_delete_names_counterexample:
  "buildActionMap [ex_asset_null_value]
     = Inr [\<lparr>am_asset = ex_asset_null_value,
             amap = [\<lparr>emap_id = 1721,
                      emap_fields =
                        [(''photoA'',
                          \<lparr>ae_value = JNull, ae_attachment = None, ae_action = Delete,
                           ae_subm_mapped_key = Some ''photoA'', ae_warning = None\<rparr>)]\<rparr>],
             am_warnings = []\<rparr>]
   \<and> JNull \<noteq> JUndefined"
  by code_simp

text \<open>
  Claim C4 does not hold of the code. With the destructive policy on, the sweep of the
  scenario's map over a directory that holds the file \<^verbatim>\<open>1721_lost.jpg\<close> of the
  \<^verbatim>\<open>none\<close> entry deletes the file: the name is in the none-set, it is in neither
  the keep-name nor the delete-name set, and after the sweep the file is neither in the
  image directory nor in the directory of the removed images.
\<close>

theorem sweeper_deletes_none_file:
  "(case start_cleaner ex_configs new_ImageCleaner ex_asset_map ex_fs_none_file of
      Inl e \<Rightarrow> False
    | Inr (c, fs') \<Rightarrow>
        deleteImages ex_configs
      \<and> fileExists ex_fs_none_file ''out/images/aXf/Survey/1721_lost.jpg''
      \<and> c_nones c = [''1721_lost.jpg'']
      \<and> c_keeps c = [''1721_photo.jpg''] \<and> c_deletes c = []
      \<and> map co_detail (c_cleaned c) = [''file deleted'']
      \<and> fs' = [(''out/images/aXf/Survey'', Dir), (''out/images_deleted/aXf/Survey'', Dir)])"
  by code_simp

section \<open>Properties of the download cycle\<close>

lemma attempt_once_Inr:
  assumes "attempt_once ev url dir name fs clock = (Inr res, fs')"
  shows "delivers ev url clock"
  using assms
  by (auto simp: attempt_once_def delivers_def Let_def
           split: attempt.splits option.splits if_splits sum.splits)

lemma saveImage_loop_clock:
  "saveImage_loop ev mx url dir name retries fs clock = (r, fs', clock')
     \<Longrightarrow> clock \<le> clock' \<and> int clock' - int clock \<le> max 0 (mx + 1 - int retries)"
proof (induction ev mx url dir name retries fs clock rule: saveImage_loop.induct)
  case (1 ev mx url dir name retries fs clock)
  show ?case
  proof (cases "int retries \<le> mx")
    case False
    with "1.prems" show ?thesis by (simp add: saveImage_loop.simps)
  next
    case True
    obtain out fs1 where a: "attempt_once ev url dir name fs clock = (out, fs1)"
      by (cases "attempt_once ev url dir name fs clock")
    show ?thesis
    proof (cases out)
      case (Inr res)
      with True a "1.prems" have "clock' = Suc clock"
        by (simp add: saveImage_loop.simps)
      with True show ?thesis by simp
    next
      case (Inl e)
      with True a "1.prems"
      have rec: "saveImage_loop ev mx url dir name (Suc retries) fs1 (Suc clock) = (r, fs', clock')"
        by (simp add: saveImage_loop.simps)
      from "1.IH"[OF True a[symmetric] Inl rec] True show ?thesis by simp
    qed
  qed
qed

lemma saveImage_loop_exhaust:
  "\<forall>k. int k < mx + 1 - int retries \<longrightarrow> \<not> delivers ev url (clock + k)
     \<Longrightarrow> \<exists>fs'. saveImage_loop ev mx url dir name retries fs clock
               = (None, fs', clock + nat (mx + 1 - int retries))"
proof (induction ev mx url dir name retries fs clock rule: saveImage_loop.induct)
  case (1 ev mx url dir name retries fs clock)
  show ?case
  proof (cases "int retries \<le> mx")
    case False
    then show ?thesis by (simp add: saveImage_loop.simps)
  next
    case True
    obtain out fs1 where a: "attempt_once ev url dir name fs clock = (out, fs1)"
      by (cases "attempt_once ev url dir name fs clock")
    from True have "int 0 < mx + 1 - int retries" by simp
    with "1.prems" have "\<not> delivers ev url (clock + 0)" by blast
    then have "\<not> delivers ev url clock" by simp
    with a obtain e where out: "out = Inl e"
      using attempt_once_Inr by (cases out) auto
    have next_fail: "\<forall>k. int k < mx + 1 - int (Suc retries) \<longrightarrow> \<not> delivers ev url (Suc clock + k)"
    proof (intro allI impI)
      fix k assume "int k < mx + 1 - int (Suc retries)"
      then have "int (Suc k) < mx + 1 - int retries" by simp
      with "1.prems" have "\<not> delivers ev url (clock + Suc k)" by blast
      then show "\<not> delivers ev url (Suc clock + k)" by simp
    qed
    from "1.IH"[OF True a[symmetric] out next_fail] obtain fs' where
      "saveImage_loop ev mx url dir name (Suc retries) fs1 (Suc clock)
         = (None, fs', Suc clock + nat (mx + 1 - int (Suc retries)))"
      by blast
    moreover have "Suc clock + nat (mx + 1 - int (Suc retries)) = clock + nat (mx + 1 - int retries)"
      using True by simp
    ultimately show ?thesis using True a out by (simp add: saveImage_loop.simps)
  qed
qed

lemma toPath_pair: "toPath [a, b] = a @ ''/'' @ b"
  by (simp add: toPath_def)

lemma attempt_once_writable:
  assumes "\<not> fileExists fs path" and "\<not> dirExists fs (toPath [path, name])"
    and "attempt_once ev url path name fs clock = (out, fs')"
  shows "\<not> fileExists fs' path \<and> \<not> dirExists fs' (toPath [path, name])"
  using assms
  by (auto simp: attempt_once_def makeDirPath_def fileExists_def dirExists_def pathExists_def
                 Let_def update_conv' toPath_pair
           split: attempt.splits option.splits if_splits sum.splits node.splits)

lemma attempt_once_good:
  assumes "\<not> fileExists fs path" and "\<not> dirExists fs (toPath [path, name])"
    and "net ev clock url = Response (Some len) ct body None"
    and "len \<noteq> 0" and "int (length body) = len"
  shows "\<exists>fs'. attempt_once ev url path name fs clock
           = (Inr \<lparr>sr_contentLength = len, sr_bytesRead = length body, sr_contentType = ct\<rparr>, fs')
         \<and> map_of fs' (toPath [path, name]) = Some (File (Bytes body))"
  using assms
  by (auto simp: attempt_once_def makeDirPath_def fileExists_def dirExists_def pathExists_def
                 Let_def update_conv' toPath_pair
           split: attempt.splits option.splits if_splits sum.splits node.splits)

lemma saveImage_loop_first:
  assumes "\<forall>j<k. \<not> delivers ev url (clock + j)"
    and "net ev (clock + k) url = Response (Some len) ct body None"
    and "len \<noteq> 0" and "int (length body) = len"
    and "int retries + int k \<le> mx"
    and "\<not> fileExists fs path" and "\<not> dirExists fs (toPath [path, name])"
  shows "\<exists>fs'. saveImage_loop ev mx url path name retries fs clock
           = (Some \<lparr>sr_contentLength = len, sr_bytesRead = length body, sr_contentType = ct\<rparr>,
              fs', clock + k + 1)
         \<and> map_of fs' (toPath [path, name]) = Some (File (Bytes body))"
  using assms
proof (induction k arbitrary: retries fs clock)
  case 0
  from "0.prems"(5) have le: "int retries \<le> mx" by simp
  from "0.prems"(2) have n: "net ev clock url = Response (Some len) ct body None" by simp
  from attempt_once_good[OF "0.prems"(6,7) n "0.prems"(3,4)] obtain fs' where
    "attempt_once ev url path name fs clock
           = (Inr \<lparr>sr_contentLength = len, sr_bytesRead = length body, sr_contentType = ct\<rparr>, fs')"
    "map_of fs' (toPath [path, name]) = Some (File (Bytes body))"
    by blast
  with le show ?case by (simp add: saveImage_loop.simps)
next
  case (Suc k)
  from Suc.prems(5) have le: "int retries \<le> mx" and le': "int (Suc retries) + int k \<le> mx"
    by simp_all
  obtain out fs1 where a: "attempt_once ev url path name fs clock = (out, fs1)"
    by (cases "attempt_once ev url path name fs clock")
  from Suc.prems(1) have "\<not> delivers ev url (clock + 0)" by blast
  then have "\<not> delivers ev url clock" by simp
  with a obtain e where out: "out = Inl e"
    using attempt_once_Inr by (cases out) auto
  from attempt_once_writable[OF Suc.prems(6,7) a]
  have w: "\<not> fileExists fs1 path" "\<not> dirExists fs1 (toPath [path, name])" by simp_all
  have nd: "\<forall>j<k. \<not> delivers ev url (Suc clock + j)"
  proof (intro allI impI)
    fix j assume "j < k"
    then have "Suc j < Suc k" by simp
    with Suc.prems(1) have "\<not> delivers ev url (clock + Suc j)" by blast
    then show "\<not> delivers ev url (Suc clock + j)" by simp
  qed
  from Suc.prems(2) have n: "net ev (Suc clock + k) url = Response (Some len) ct body None"
    by simp
  from Suc.IH[OF nd n Suc.prems(3,4) le' w] obtain fs' where
    "saveImage_loop ev mx url path name (Suc retries) fs1 (Suc clock)
           = (Some \<lparr>sr_contentLength = len, sr_bytesRead = length body, sr_contentType = ct\<rparr>,
              fs', Suc clock + k + 1)"
    "map_of fs' (toPath [path, name]) = Some (File (Bytes body))"
    by blast
  with le a out show ?case by (simp add: saveImage_loop.simps)
qed

lemma saveImage_loop_result:
  "saveImage_loop ev mx url dir name retries fs clock = (r, fs', clock')
     \<Longrightarrow> (r = None \<longrightarrow> int clock' - int clock = max 0 (mx + 1 - int retries))
       \<and> (r \<noteq> None \<longrightarrow> clock < clock' \<and> delivers ev url (clock' - 1))"
proof (induction ev mx url dir name retries fs clock rule: saveImage_loop.induct)
  case (1 ev mx url dir name retries fs clock)
  show ?case
  proof (cases "int retries \<le> mx")
    case False
    with "1.prems" show ?thesis by (simp add: saveImage_loop.simps)
  next
    case True
    obtain out fs1 where a: "attempt_once ev url dir name fs clock = (out, fs1)"
      by (cases "attempt_once ev url dir name fs clock")
    show ?thesis
    proof (cases out)
      case (Inr res)
      with True a "1.prems" have "clock' = Suc clock" "r = Some res"
        by (simp_all add: saveImage_loop.simps)
      moreover from a Inr have "delivers ev url clock" using attempt_once_Inr by simp
      ultimately show ?thesis by simp
    next
      case (Inl e)
      with True a "1.prems"
      have rec: "saveImage_loop ev mx url dir name (Suc retries) fs1 (Suc clock) = (r, fs', clock')"
        by (simp add: saveImage_loop.simps)
      from "1.IH"[OF True a[symmetric] Inl rec] True show ?thesis by auto
    qed
  qed
qed

text \<open>
  What \<^verbatim>\<open>saveImage\<close> returns for a budget that is a number: it makes at most that
  many attempts; it returns an image only at an attempt where the network delivers; it
  throws only the error of the exhausted budget, after exactly that many attempts; it
  does so when the network delivers at none of them; and when the \<open>k\<close>-th attempt is the
  first where the network delivers, and the directory can be made and the target is no
  directory, it returns that image after \<open>k + 1\<close> attempts, with the image in its file.
\<close>

lemma saveImage_spec:
  assumes "i_url \<noteq> []" and "i_path \<noteq> []" and "i_name \<noteq> []"
  shows "\<exists>r fs' clock'. saveImage ev (JNum mx) i_url i_path i_name fs clock = (r, fs', clock')
           \<and> clock \<le> clock' \<and> int clock' - int clock \<le> max 0 mx
           \<and> (\<forall>res. r = Inr res \<longrightarrow> clock < clock' \<and> delivers ev i_url (clock' - 1))
           \<and> (\<forall>err. r = Inl err \<longrightarrow>
                 err = Error (''saveImage fails after '' @ show_int mx @ '' retries'')
               \<and> int clock' - int clock = max 0 mx)
           \<and> ((\<forall>k. int k < mx \<longrightarrow> \<not> delivers ev i_url (clock + k)) \<longrightarrow>
                 r = Inl (Error (''saveImage fails after '' @ show_int mx @ '' retries'')))
           \<and> (\<forall>k len ct body.
                 int k < mx \<and> (\<forall>j<k. \<not> delivers ev i_url (clock + j))
               \<and> net ev (clock + k) i_url = Response (Some len) ct body None
               \<and> len \<noteq> 0 \<and> int (length body) = len
               \<and> \<not> fileExists fs i_path \<and> \<not> dirExists fs (toPath [i_path, i_name]) \<longrightarrow>
                 r = Inr \<lparr>sr_contentLength = len, sr_bytesRead = length body, sr_contentType = ct\<rparr>
               \<and> clock' = clock + k + 1
               \<and> map_of fs' (toPath [i_path, i_name]) = Some (File (Bytes body)))"
proof -
  obtain res fs' clock' where loop:
    "saveImage_loop ev mx i_url i_path i_name 1 fs clock = (res, fs', clock')"
    by (cases "saveImage_loop ev mx i_url i_path i_name 1 fs clock")
  define msg where "msg = Error (''saveImage fails after '' @ show_int mx @ '' retries'')"
  define r where "r = (case res of None \<Rightarrow> Inl msg | Some x \<Rightarrow> Inr x)"
  have sv: "saveImage ev (JNum mx) i_url i_path i_name fs clock = (r, fs', clock')"
    using assms loop by (simp add: saveImage_def r_def msg_def split: option.splits)
  from saveImage_loop_clock[OF loop]
  have c1: "clock \<le> clock'" and c2: "int clock' - int clock \<le> max 0 mx" by simp_all
  from saveImage_loop_result[OF loop]
  have none: "res = None \<longrightarrow> int clock' - int clock = max 0 mx"
    and some: "res \<noteq> None \<longrightarrow> clock < clock' \<and> delivers ev i_url (clock' - 1)"
    by simp_all
  have c3: "\<forall>x. r = Inr x \<longrightarrow> clock < clock' \<and> delivers ev i_url (clock' - 1)"
    using some by (auto simp: r_def split: option.splits)
  have c4: "\<forall>err. r = Inl err \<longrightarrow> err = msg \<and> int clock' - int clock = max 0 mx"
    using none by (auto simp: r_def split: option.splits)
  have c5: "(\<forall>k. int k < mx \<longrightarrow> \<not> delivers ev i_url (clock + k)) \<longrightarrow> r = Inl msg"
  proof
    assume fail: "\<forall>k. int k < mx \<longrightarrow> \<not> delivers ev i_url (clock + k)"
    then have "\<forall>k. int k < mx + 1 - int 1 \<longrightarrow> \<not> delivers ev i_url (clock + k)" by simp
    from saveImage_loop_exhaust[OF this, of i_path i_name fs] loop
    have "res = None" by auto
    then show "r = Inl msg" by (simp add: r_def)
  qed
  have c6: "\<forall>k len ct body.
                 int k < mx \<and> (\<forall>j<k. \<not> delivers ev i_url (clock + j))
               \<and> net ev (clock + k) i_url = Response (Some len) ct body None
               \<and> len \<noteq> 0 \<and> int (length body) = len
               \<and> \<not> fileExists fs i_path \<and> \<not> dirExists fs (toPath [i_path, i_name]) \<longrightarrow>
                 r = Inr \<lparr>sr_contentLength = len, sr_bytesRead = length body, sr_contentType = ct\<rparr>
               \<and> clock' = clock + k + 1
               \<and> map_of fs' (toPath [i_path, i_name]) = Some (File (Bytes body))"
  proof (intro allI impI)
    fix k len ct body
    assume H: "int k < mx \<and> (\<forall>j<k. \<not> delivers ev i_url (clock + j))
               \<and> net ev (clock + k) i_url = Response (Some len) ct body None
               \<and> len \<noteq> 0 \<and> int (length body) = len
               \<and> \<not> fileExists fs i_path \<and> \<not> dirExists fs (toPath [i_path, i_name])"
    then have k: "int (1::nat) + int k \<le> mx" by simp
    from H have h1: "\<forall>j<k. \<not> delivers ev i_url (clock + j)"
      and h2: "net ev (clock + k) i_url = Response (Some len) ct body None"
      and h3: "len \<noteq> 0" and h4: "int (length body) = len"
      and h5: "\<not> fileExists fs i_path" and h6: "\<not> dirExists fs (toPath [i_path, i_name])"
      by simp_all
    from saveImage_loop_first[OF h1 h2 h3 h4 k h5 h6] loop
    have "res = Some \<lparr>sr_contentLength = len, sr_bytesRead = length body, sr_contentType = ct\<rparr>"
      "clock' = clock + k + 1" "map_of fs' (toPath [i_path, i_name]) = Some (File (Bytes body))"
      by auto
    then show "r = Inr \<lparr>sr_contentLength = len, sr_bytesRead = length body, sr_contentType = ct\<rparr>
               \<and> clock' = clock + k + 1
               \<and> map_of fs' (toPath [i_path, i_name]) = Some (File (Bytes body))"
      by (simp add: r_def)
  qed
  from sv c1 c2 c3 c4 c5 c6 show ?thesis
    unfolding msg_def by (intro exI[of _ r] exI[of _ fs'] exI[of _ clock'] conjI)
qed

text \<open>A budget that is not a number: the check throws, and no attempt is made.\<close>

lemma saveImage_budget_not_number:
  assumes "i_url \<noteq> []" and "i_path \<noteq> []" and "i_name \<noteq> []"
    and "\<not> check b Defined TNumber"
  shows "saveImage ev b i_url i_path i_name fs clock = (Inl (CheckError TNumber b), fs, clock)"
  using assms by (simp add: saveImage_def)

lemma toPath_nonempty: "toPath [a, b, c] \<noteq> []"
  by (simp add: toPath_def)

lemma keep_download_failure:
  assumes "saveImage ev (maxDownloadRetries cfg) (download_url att) e_img_dir_path img_new_name
             (es_fs st) (es_clock st) = (Inl err, fs', clock')"
  shows "run_try rid e_key ''saveImage''
           (keep_download ev cfg a_uid a_name e_img_dir_path e_images_info_file_path
              e_attachment_map_file_path rid e_key e_value att img_new_name st)
         = catch_error rid e_key ''saveImage'' err (st\<lparr>es_fs := fs', es_clock := clock'\<rparr>)"
  using assms by (simp add: keep_download_def run_try_def)

section \<open>Properties of the action executor\<close>

text \<open>The state in which a \<^verbatim>\<open>try\<close> block ends, thrown or not.\<close>

lemma catch_error_simps:
  "es_fs (catch_error rid k op e st) = es_fs st"
  "es_clock (catch_error rid k op e st) = es_clock st"
  "imageNamesToKeep (catch_error rid k op e st) = imageNamesToKeep st"
  "imageNamesToDelete (catch_error rid k op e st) = imageNamesToDelete st"
  "downloads (catch_error rid k op e st) = downloads st"
  "upToDate (catch_error rid k op e st) = upToDate st"
  "deletes (catch_error rid k op e st) = deletes st"
  "nones (catch_error rid k op e st) = nones st"
  "es_errors (catch_error rid k op e st)
     = es_errors st @ [''an error occurs while proccessing image - error: '' @ message e]"
  "es_results (catch_error rid k op e st)
     = es_results st @ [\<lparr>fr_id = rid, fr_key = k, fr_status = StatusError, fr_op = op,
                          fr_action_detail = None, fr_error = Some (message e)\<rparr>]"
  by (simp_all add: catch_error_def)

lemma push_ok_simps:
  "es_fs (push_ok rid k op d st) = es_fs st"
  "es_clock (push_ok rid k op d st) = es_clock st"
  "imageNamesToKeep (push_ok rid k op d st) = imageNamesToKeep st"
  "imageNamesToDelete (push_ok rid k op d st) = imageNamesToDelete st"
  "downloads (push_ok rid k op d st) = downloads st"
  "upToDate (push_ok rid k op d st) = upToDate st"
  "deletes (push_ok rid k op d st) = deletes st"
  "nones (push_ok rid k op d st) = nones st"
  "es_errors (push_ok rid k op d st) = es_errors st"
  by (simp_all add: push_ok_def)

lemma keep_up_to_date_names:
  "imageNamesToKeep (run_try rid k op (keep_up_to_date info rid k cur st)) = imageNamesToKeep st
 \<and> imageNamesToDelete (run_try rid k op (keep_up_to_date info rid k cur st)) = imageNamesToDelete st"
  by (simp add: keep_up_to_date_def run_try_def catch_error_simps push_ok_simps
           split: sum.splits)

lemma keep_download_names:
  "imageNamesToKeep (run_try rid k op
      (keep_download ev cfg a_uid a_name dir info mapfile rid k e att img st)) = imageNamesToKeep st
 \<and> imageNamesToDelete (run_try rid k op
      (keep_download ev cfg a_uid a_name dir info mapfile rid k e att img st)) = imageNamesToDelete st"
proof -
  obtain r fs' clock' where sv:
    "saveImage ev (maxDownloadRetries cfg) (download_url att) dir img (es_fs st) (es_clock st)
       = (r, fs', clock')"
    by (cases "saveImage ev (maxDownloadRetries cfg) (download_url att) dir img (es_fs st) (es_clock st)")
  show ?thesis
  proof (cases r)
    case (Inl err)
    with sv show ?thesis
      by (simp add: keep_download_def run_try_def catch_error_simps)
  next
    case (Inr res)
    with sv show ?thesis
      by (simp add: keep_download_def run_try_def catch_error_simps push_ok_simps Let_def
               split: sum.splits)
  qed
qed

lemma keep_body_names:
  assumes img_def: "img = show_int rid @ ''_'' @ show_js (ae_value e)"
    and r_def: "r = run_try rid k ''saveImage''
                  (keep_body ev cfg a_uid a_name dir info mapfile rid k e cur has st)"
  shows "set (imageNamesToKeep st) \<subseteq> set (imageNamesToKeep r)
       \<and> imageNamesToDelete r = imageNamesToDelete st
       \<and> (ae_attachment e \<noteq> None \<longrightarrow> img \<in> set (imageNamesToKeep r))"
proof (cases "ae_attachment e")
  case None
  then show ?thesis
    by (simp add: r_def keep_body_def run_try_def catch_error_simps)
next
  case (Some att)
  show ?thesis
  proof (cases "img \<in> set (imageNamesToKeep st)")
    case True
    with Some show ?thesis
      by (simp add: r_def img_def keep_body_def run_try_def catch_error_simps Let_def)
  next
    case False
    define st1 where "st1 = st\<lparr>imageNamesToKeep := imageNamesToKeep st @ [img]\<rparr>"
    define p where "p = toPath [dir, img]"
    define ex where "ex = fileExists (es_fs st1) p"
    have names1: "imageNamesToKeep st1 = imageNamesToKeep st @ [img]"
      "imageNamesToDelete st1 = imageNamesToDelete st"
      by (simp_all add: st1_def)
    show ?thesis
    proof (cases "\<not> ex \<and> pathExists (es_fs st1) p")
      case True
      with Some False names1 show ?thesis
        by (auto simp add: r_def img_def keep_body_def run_try_def catch_error_simps Let_def
                      st1_def p_def ex_def)
    next
      case nf: False
      show ?thesis
      proof (cases "imgIsUpToDate ev (es_fs st1) ex has cur img (att_id att) p")
        case (Inl err)
        with Some False nf names1 show ?thesis
          by (auto simp add: r_def img_def keep_body_def run_try_def catch_error_simps Let_def
                        st1_def p_def ex_def)
      next
        case (Inr u)
        show ?thesis
        proof (cases "ex \<and> u")
          case True
          with Some False nf Inr have "r = run_try rid k ''saveImage''
                (keep_up_to_date info rid k cur st1)"
            by (simp add: r_def img_def keep_body_def Let_def st1_def p_def ex_def)
          with keep_up_to_date_names[of rid k "''saveImage''" info cur st1] names1
          show ?thesis by auto
        next
          case dl: False
          with Some False nf Inr have "r = run_try rid k ''saveImage''
                (keep_download ev cfg a_uid a_name dir info mapfile rid k e att img st1)"
            by (auto simp add: r_def img_def keep_body_def Let_def st1_def p_def ex_def)
          with keep_download_names[of rid k "''saveImage''" ev cfg a_uid a_name dir info mapfile
                 e att img st1] names1
          show ?thesis by auto
        qed
      qed
    qed
  qed
qed

lemma delete_body_names:
  assumes r_def: "r = run_try rid k ''deleteImage''
                          (delete_body ev cfg a_uid a_name rid k cur has st)"
  shows "imageNamesToKeep r = imageNamesToKeep st
       \<and> set (imageNamesToDelete st) \<subseteq> set (imageNamesToDelete r)"
proof (cases has)
  case False
  then show ?thesis
    by (simp add: r_def delete_body_def run_try_def push_ok_simps)
next
  case True
  define nm where "nm = show_js (field cur ''imageName'')"
  show ?thesis
  proof (cases "nm \<in> set (imageNamesToKeep st) \<or> nm \<in> set (imageNamesToDelete st)")
    case dup: True
    with True show ?thesis
      by (auto simp add: r_def nm_def delete_body_def run_try_def catch_error_simps Let_def)
  next
    case False
    define st1 where "st1 = st\<lparr>imageNamesToDelete := imageNamesToDelete st @ [nm]\<rparr>"
    define p where "p = toPath [toPath [imagesPath cfg, a_uid, a_name], nm]"
    have names1: "imageNamesToKeep st1 = imageNamesToKeep st"
      "imageNamesToDelete st1 = imageNamesToDelete st @ [nm]"
      by (simp_all add: st1_def)
    have nd: "show_js (field cur ''imageName'') \<notin> set (imageNamesToKeep st)"
      "show_js (field cur ''imageName'') \<notin> set (imageNamesToDelete st)"
      using False by (simp_all add: nm_def)
    show ?thesis
    proof (cases "fileExists (es_fs st1) p")
      case nofile: False
      then have "delete_body ev cfg a_uid a_name rid k cur has st
          = Inr ((push_ok rid k ''deleteImage'' ''image does not exists'' st1)
                   \<lparr>nones := Suc (nones st)\<rparr>)"
        using True nd by (simp add: delete_body_def Let_def nm_def st1_def p_def)
      with names1 show ?thesis
        by (auto simp add: r_def run_try_def push_ok_simps)
    next
      case isfile: True
      show ?thesis
      proof (cases "isValidFileHash ev (es_fs st1) p (field cur ''hash'')")
        case (Inl err)
        with isfile have "delete_body ev cfg a_uid a_name rid k cur has st = Inl (err, st1)"
          using True nd by (simp add: delete_body_def Let_def nm_def st1_def p_def)
        with names1 show ?thesis
          by (auto simp add: r_def run_try_def catch_error_simps)
      next
        case (Inr valid)
        show ?thesis
        proof (cases valid)
          case False
          with isfile Inr have "\<exists>err. delete_body ev cfg a_uid a_name rid k cur has st = Inl (err, st1)"
            using True nd by (simp add: delete_body_def Let_def nm_def st1_def p_def)
          with names1 show ?thesis
            by (auto simp add: r_def run_try_def catch_error_simps)
        next
          case valid: True
          show ?thesis
          proof (cases "deleteImages cfg")
            case True
            with isfile Inr valid have "delete_body ev cfg a_uid a_name rid k cur has st
              = Inr ((push_ok rid k ''deleteImage'' ''image deleted''
                           (st1\<lparr>es_fs := snd (deletePath (es_fs st1) p)\<rparr>))
                          \<lparr>deletes := Suc (deletes st)\<rparr>)"
              using \<open>has\<close> nd by (simp add: delete_body_def Let_def nm_def st1_def p_def)
            with names1 show ?thesis
              by (auto simp add: r_def run_try_def push_ok_simps)
          next
            case False
            show ?thesis
            proof (cases "mvFile (es_fs st1) p (toPath [imagesDeletedPath cfg, nm])")
              case (Inl err)
              with isfile Inr valid False
              have "delete_body ev cfg a_uid a_name rid k cur has st = Inl (err, st1)"
                using \<open>has\<close> nd by (simp add: delete_body_def Let_def nm_def st1_def p_def)
              with names1 show ?thesis
                by (auto simp add: r_def run_try_def catch_error_simps)
            next
              case (Inr fs')
              with isfile \<open>isValidFileHash ev (es_fs st1) p (field cur ''hash'') = Inr valid\<close>
                valid False
              have "delete_body ev cfg a_uid a_name rid k cur has st
                = Inr ((push_ok rid k ''deleteImage''
                                ''image moved to 'images_deleted' dir'' (st1\<lparr>es_fs := fs'\<rparr>))
                               \<lparr>deletes := Suc (deletes st)\<rparr>)"
                using \<open>has\<close> nd by (simp add: delete_body_def Let_def nm_def st1_def p_def)
              with names1 show ?thesis
                by (auto simp add: r_def run_try_def push_ok_simps)
            qed
          qed
        qed
      qed
    qed
  qed
qed

lemma exec_entry_dispatch:
  assumes "check (ae_value e) IfExists TString"
    and "\<forall>att. ae_attachment e = Some att \<longrightarrow> download_url att \<noteq> []"
    and "read_attachment_map (es_fs st)
           (toPath [toPath [attachmentsMap cfg, a_uid, show_int rid], e_key @ ''.json''])
           (es_warnings st) = Inr (cur, has, ws)"
  shows "exec_entry ev cfg a_uid a_name rid (e_key, e) st =
           Inr (case ae_action e of
                  Keep \<Rightarrow>
                    run_try rid e_key ''saveImage''
                      (keep_body ev cfg a_uid a_name (toPath [imagesPath cfg, a_uid, a_name])
                         (toPath [toPath [toPath [imagesPath cfg, a_uid, a_name], ''data''],
                                  ''images_info.csv''])
                         (toPath [toPath [attachmentsMap cfg, a_uid, show_int rid], e_key @ ''.json''])
                         rid e_key e cur has (st\<lparr>es_warnings := ws\<rparr>))
                | Delete \<Rightarrow>
                    run_try rid e_key ''deleteImage''
                      (delete_body ev cfg a_uid a_name rid e_key cur has (st\<lparr>es_warnings := ws\<rparr>))
                | NoAction \<Rightarrow> none_body rid e_key (st\<lparr>es_warnings := ws\<rparr>))"
proof -
  have url: "\<not> (case ae_attachment e of
                 None \<Rightarrow> False
               | Some att \<Rightarrow> \<not> check (JStr (download_url att)) MustExists TString)"
    using assms(2) by (cases "ae_attachment e") simp_all
  show ?thesis
    using assms(1,3) url
    by (cases "ae_action e") (simp_all add: exec_entry_def Let_def)
qed

text \<open>
  Claim C5. Take an entry that passes the checks of the loop body and whose state record
  is read without an error. The entry does not end the run: the loop goes on with the
  next entry. The names claimed so far stay claimed; a \<^verbatim>\<open>keep\<close> with an attachment
  has claimed its target name \<open>img\<close> afterwards, and a \<^verbatim>\<open>delete\<close> with a valid state
  record whose stored name \<open>stored\<close> is no keep name has claimed that name. A
  \<^verbatim>\<open>keep\<close> whose target name is already claimed by a keep ends as an error of the
  entry: the file system is untouched (the first file is not overwritten), no download is
  attempted, the error is pushed and the entry is recorded with the status
  \<^verbatim>\<open>error\<close>. A \<^verbatim>\<open>delete\<close> whose stored name is already claimed by a keep or by a
  delete ends as an error of the entry in the same way, and removes nothing.
\<close>

theorem duplicate_names:
  assumes "check (ae_value e) IfExists TString"
    and "\<forall>att. ae_attachment e = Some att \<longrightarrow> download_url att \<noteq> []"
    and "read_attachment_map (es_fs st)
           (toPath [toPath [attachmentsMap cfg, a_uid, show_int rid], e_key @ ''.json''])
           (es_warnings st) = Inr (cur, has, ws)"
    and "img = show_int rid @ ''_'' @ show_js (ae_value e)"
    and "stored = show_js (field cur ''imageName'')"
  shows "\<exists>st'. exec_entry ev cfg a_uid a_name rid (e_key, e) st = Inr st'
       \<and> exec_entries ev cfg a_uid a_name rid ((e_key, e) # rest) st
           = exec_entries ev cfg a_uid a_name rid rest st'
       \<and> set (imageNamesToKeep st) \<subseteq> set (imageNamesToKeep st')
       \<and> set (imageNamesToDelete st) \<subseteq> set (imageNamesToDelete st')
       \<and> (ae_action e = Keep \<and> ae_attachment e \<noteq> None \<longrightarrow> img \<in> set (imageNamesToKeep st'))
       \<and> (ae_action e = Delete \<and> has \<and> stored \<notin> set (imageNamesToKeep st) \<longrightarrow>
             stored \<in> set (imageNamesToDelete st'))
       \<and> (ae_action e = Keep \<and> ae_attachment e \<noteq> None \<and> img \<in> set (imageNamesToKeep st) \<longrightarrow>
             es_fs st' = es_fs st \<and> es_clock st' = es_clock st
           \<and> es_errors st' = es_errors st @
               [''an error occurs while proccessing image - error: in action 'keep': image name is duplicated: ''
                  @ img]
           \<and> es_results st' = es_results st @
               [\<lparr>fr_id = rid, fr_key = e_key, fr_status = StatusError, fr_op = ''saveImage'',
                 fr_action_detail = None,
                 fr_error = Some (''in action 'keep': image name is duplicated: '' @ img)\<rparr>]
           \<and> downloads st' = downloads st \<and> upToDate st' = upToDate st)
       \<and> (ae_action e = Delete \<and> has
            \<and> (stored \<in> set (imageNamesToKeep st) \<or> stored \<in> set (imageNamesToDelete st)) \<longrightarrow>
             es_fs st' = es_fs st \<and> deletes st' = deletes st
           \<and> es_errors st' = es_errors st @
               [''an error occurs while proccessing image - error: in action 'delete': image name is duplicated in ''
                  @ (if stored \<in> set (imageNamesToKeep st) then ''to-keep'' else ''to-delete'')
                  @ '' list: '' @ stored]
           \<and> es_results st' = es_results st @
               [\<lparr>fr_id = rid, fr_key = e_key, fr_status = StatusError, fr_op = ''deleteImage'',
                 fr_action_detail = None,
                 fr_error = Some (''in action 'delete': image name is duplicated in ''
                  @ (if stored \<in> set (imageNamesToKeep st) then ''to-keep'' else ''to-delete'')
                  @ '' list: '' @ stored)\<rparr>])"
proof -
  define st0 where "st0 = st\<lparr>es_warnings := ws\<rparr>"
  define dir where "dir = toPath [imagesPath cfg, a_uid, a_name]"
  define info where "info = toPath [toPath [dir, ''data''], ''images_info.csv'']"
  define mapfile where
    "mapfile = toPath [toPath [attachmentsMap cfg, a_uid, show_int rid], e_key @ ''.json'']"
  define kb where "kb = run_try rid e_key ''saveImage''
      (keep_body ev cfg a_uid a_name dir info mapfile rid e_key e cur has st0)"
  define db where "db = run_try rid e_key ''deleteImage''
      (delete_body ev cfg a_uid a_name rid e_key cur has st0)"
  define st' where "st' = (case ae_action e of Keep \<Rightarrow> kb | Delete \<Rightarrow> db
                           | NoAction \<Rightarrow> none_body rid e_key st0)"
  have entry: "exec_entry ev cfg a_uid a_name rid (e_key, e) st = Inr st'"
    unfolding st'_def kb_def db_def st0_def dir_def info_def mapfile_def
    by (rule exec_entry_dispatch[OF assms(1,2,3)])
  then have cont: "exec_entries ev cfg a_uid a_name rid ((e_key, e) # rest) st
           = exec_entries ev cfg a_uid a_name rid rest st'"
    by simp
  have st0: "imageNamesToKeep st0 = imageNamesToKeep st"
    "imageNamesToDelete st0 = imageNamesToDelete st" "es_fs st0 = es_fs st"
    "es_clock st0 = es_clock st" "es_errors st0 = es_errors st" "es_results st0 = es_results st"
    "downloads st0 = downloads st" "upToDate st0 = upToDate st" "deletes st0 = deletes st"
    by (simp_all add: st0_def)
  note K = keep_body_names[OF assms(4) kb_def]
  note D = delete_body_names[OF db_def]
  have mono: "set (imageNamesToKeep st) \<subseteq> set (imageNamesToKeep st')
            \<and> set (imageNamesToDelete st) \<subseteq> set (imageNamesToDelete st')"
    using K D st0
    by (cases "ae_action e") (auto simp: st'_def none_body_def push_ok_simps)
  have kclaim: "ae_action e = Keep \<and> ae_attachment e \<noteq> None \<longrightarrow> img \<in> set (imageNamesToKeep st')"
    using K by (auto simp: st'_def)
  have dclaim: "ae_action e = Delete \<and> has \<and> stored \<notin> set (imageNamesToKeep st) \<longrightarrow>
             stored \<in> set (imageNamesToDelete st')"
  proof (intro impI)
    assume a: "ae_action e = Delete \<and> has \<and> stored \<notin> set (imageNamesToKeep st)"
    show "stored \<in> set (imageNamesToDelete st')"
    proof (cases "stored \<in> set (imageNamesToDelete st)")
      case True
      with mono show ?thesis by blast
    next
      case False
      define st1 where "st1 = st0\<lparr>imageNamesToDelete := imageNamesToDelete st0 @ [stored]\<rparr>"
      have "stored \<in> set (imageNamesToDelete st1)" by (simp add: st1_def)
      moreover have "imageNamesToDelete db = imageNamesToDelete st1"
        using a False st0 assms(5)
        by (auto simp add: db_def delete_body_def Let_def run_try_def catch_error_simps
                      push_ok_simps st1_def split: sum.splits)
      ultimately show ?thesis using a by (simp add: st'_def)
    qed
  qed
  have kdup: "ae_action e = Keep \<and> ae_attachment e \<noteq> None \<and> img \<in> set (imageNamesToKeep st) \<longrightarrow>
             es_fs st' = es_fs st \<and> es_clock st' = es_clock st
           \<and> es_errors st' = es_errors st @
               [''an error occurs while proccessing image - error: in action 'keep': image name is duplicated: ''
                  @ img]
           \<and> es_results st' = es_results st @
               [\<lparr>fr_id = rid, fr_key = e_key, fr_status = StatusError, fr_op = ''saveImage'',
                 fr_action_detail = None,
                 fr_error = Some (''in action 'keep': image name is duplicated: '' @ img)\<rparr>]
           \<and> downloads st' = downloads st \<and> upToDate st' = upToDate st"
  proof (intro impI)
    assume a: "ae_action e = Keep \<and> ae_attachment e \<noteq> None \<and> img \<in> set (imageNamesToKeep st)"
    then obtain att where att: "ae_attachment e = Some att" by auto
    have "kb = catch_error rid e_key ''saveImage''
                 (Error (''in action 'keep': image name is duplicated: '' @ img))
                 (st0\<lparr>imageNamesToKeepDuplicated := imageNamesToKeepDuplicated st0 @ [img]\<rparr>)"
      using a att st0 assms(4)
      by (simp add: kb_def keep_body_def Let_def run_try_def)
    with a st0 show "es_fs st' = es_fs st \<and> es_clock st' = es_clock st
           \<and> es_errors st' = es_errors st @
               [''an error occurs while proccessing image - error: in action 'keep': image name is duplicated: ''
                  @ img]
           \<and> es_results st' = es_results st @
               [\<lparr>fr_id = rid, fr_key = e_key, fr_status = StatusError, fr_op = ''saveImage'',
                 fr_action_detail = None,
                 fr_error = Some (''in action 'keep': image name is duplicated: '' @ img)\<rparr>]
           \<and> downloads st' = downloads st \<and> upToDate st' = upToDate st"
      by (simp add: st'_def catch_error_simps)
  qed
  have ddup: "ae_action e = Delete \<and> has
            \<and> (stored \<in> set (imageNamesToKeep st) \<or> stored \<in> set (imageNamesToDelete st)) \<longrightarrow>
             es_fs st' = es_fs st \<and> deletes st' = deletes st
           \<and> es_errors st' = es_errors st @
               [''an error occurs while proccessing image - error: in action 'delete': image name is duplicated in ''
                  @ (if stored \<in> set (imageNamesToKeep st) then ''to-keep'' else ''to-delete'')
                  @ '' list: '' @ stored]
           \<and> es_results st' = es_results st @
               [\<lparr>fr_id = rid, fr_key = e_key, fr_status = StatusError, fr_op = ''deleteImage'',
                 fr_action_detail = None,
                 fr_error = Some (''in action 'delete': image name is duplicated in ''
                  @ (if stored \<in> set (imageNamesToKeep st) then ''to-keep'' else ''to-delete'')
                  @ '' list: '' @ stored)\<rparr>]"
  proof (intro impI)
    assume a: "ae_action e = Delete \<and> has
            \<and> (stored \<in> set (imageNamesToKeep st) \<or> stored \<in> set (imageNamesToDelete st))"
    define msg where "msg = ''in action 'delete': image name is duplicated in ''
                  @ (if stored \<in> set (imageNamesToKeep st) then ''to-keep'' else ''to-delete'')
                  @ '' list: '' @ stored"
    have "db = catch_error rid e_key ''deleteImage'' (Error msg)
                 (st0\<lparr>imageNamesToDeleteDuplicated := imageNamesToDeleteDuplicated st0 @ [stored]\<rparr>)"
      using a st0 assms(5)
      by (auto simp add: db_def delete_body_def Let_def run_try_def msg_def)
    with a st0 show "es_fs st' = es_fs st \<and> deletes st' = deletes st
           \<and> es_errors st' = es_errors st @
               [''an error occurs while proccessing image - error: in action 'delete': image name is duplicated in ''
                  @ (if stored \<in> set (imageNamesToKeep st) then ''to-keep'' else ''to-delete'')
                  @ '' list: '' @ stored]
           \<and> es_results st' = es_results st @
               [\<lparr>fr_id = rid, fr_key = e_key, fr_status = StatusError, fr_op = ''deleteImage'',
                 fr_action_detail = None,
                 fr_error = Some (''in action 'delete': image name is duplicated in ''
                  @ (if stored \<in> set (imageNamesToKeep st) then ''to-keep'' else ''to-delete'')
                  @ '' list: '' @ stored)\<rparr>]"
      by (simp add: st'_def catch_error_simps msg_def)
  qed
  from entry cont mono kclaim dclaim kdup ddup show ?thesis
    by (intro exI[of _ st'] conjI) simp_all
qed

text \<open>
  The theorem at a second \<^verbatim>\<open>keep\<close> entry of record 1721 for the name
  \<^verbatim>\<open>photo.jpg\<close>, after a first one has claimed \<^verbatim>\<open>1721_photo.jpg\<close> and written
  the file: the entry ends in the error, the tree is as before and nothing is downloaded.
\<close>

theorem duplicate_names_witness:
  "\<exists>st'. exec_entry ex_env ex_configs ''aXf'' ''Survey'' 1721 (''photoD'', ex_entry_keep)
            ((init_state ex_fs_after_run 1)\<lparr>imageNamesToKeep := [''1721_photo.jpg'']\<rparr>) = Inr st'
      \<and> es_fs st' = ex_fs_after_run \<and> es_clock st' = 1
      \<and> es_errors st' =
          [''an error occurs while proccessing image - error: in action 'keep': image name is duplicated: 1721_photo.jpg'']"
proof -
  define st where "st = (init_state ex_fs_after_run 1)\<lparr>imageNamesToKeep := [''1721_photo.jpg'']\<rparr>"
  have nm: "show_int 1721 @ ''_'' @ show_js (ae_value ex_entry_keep) = ''1721_photo.jpg''"
    by code_simp
  have h1: "check (ae_value ex_entry_keep) IfExists TString" by (simp add: ex_entry_keep_def)
  have h2: "\<forall>att. ae_attachment ex_entry_keep = Some att \<longrightarrow> download_url att \<noteq> []"
    by (simp add: ex_entry_keep_def ex_attachment_def)
  have h3: "read_attachment_map (es_fs st)
           (toPath [toPath [attachmentsMap ex_configs, ''aXf'', show_int 1721], ''photoD'' @ ''.json''])
           (es_warnings st) = Inr (JNull, False, [])"
    unfolding st_def by code_simp
  have h4: "''1721_photo.jpg'' = show_int 1721 @ ''_'' @ show_js (ae_value ex_entry_keep)"
    by (rule nm[symmetric])
  have h5: "''undefined'' = show_js (field JNull ''imageName'')" by simp
  from duplicate_names[OF h1 h2 h3 h4 h5, of ex_env "''Survey''" "[]"]
  obtain st' where
    e: "exec_entry ex_env ex_configs ''aXf'' ''Survey'' 1721 (''photoD'', ex_entry_keep) st = Inr st'"
    and d: "ae_action ex_entry_keep = Keep \<and> ae_attachment ex_entry_keep \<noteq> None
              \<and> ''1721_photo.jpg'' \<in> set (imageNamesToKeep st) \<longrightarrow>
             es_fs st' = es_fs st \<and> es_clock st' = es_clock st
           \<and> es_errors st' = es_errors st @
               [''an error occurs while proccessing image - error: in action 'keep': image name is duplicated: ''
                  @ ''1721_photo.jpg'']
           \<and> es_results st' = es_results st @
               [\<lparr>fr_id = 1721, fr_key = ''photoD'', fr_status = StatusError, fr_op = ''saveImage'',
                 fr_action_detail = None,
                 fr_error = Some (''in action 'keep': image name is duplicated: '' @ ''1721_photo.jpg'')\<rparr>]
           \<and> downloads st' = downloads st \<and> upToDate st' = upToDate st"
    by blast
  have "ae_action ex_entry_keep = Keep \<and> ae_attachment ex_entry_keep \<noteq> None
              \<and> ''1721_photo.jpg'' \<in> set (imageNamesToKeep st)"
    by (simp add: ex_entry_keep_def st_def)
  with d have "es_fs st' = es_fs st \<and> es_clock st' = es_clock st
           \<and> es_errors st' = es_errors st @
               [''an error occurs while proccessing image - error: in action 'keep': image name is duplicated: ''
                  @ ''1721_photo.jpg'']"
    by blast
  then have "es_fs st' = ex_fs_after_run \<and> es_clock st' = 1
      \<and> es_errors st' =
          [''an error occurs while proccessing image - error: in action 'keep': image name is duplicated: 1721_photo.jpg'']"
    by (simp add: st_def init_state_def)
  with e show ?thesis unfolding st_def by blast
qed

section \<open>Properties of the freshness evaluation\<close>

lemma hash_words_equal_eq:
  "length h = length vs \<Longrightarrow> hash_words_equal h vs = (vs = map JNum h)"
  by (induction h vs rule: list_induct2) auto

lemma isValidFileHash_file:
  assumes "map_of fs p = Some (File c)" and "p \<noteq> []"
  shows "isValidFileHash ev fs p (JArr vs) = Inr (vs = map JNum (sha256 ev c))"
proof (cases "length (sha256 ev c) = length vs")
  case True
  with assms show ?thesis
    by (simp add: isValidFileHash_def getFileHash_def hash_words_equal_eq)
next
  case False
  then have "vs \<noteq> map JNum (sha256 ev c)" by auto
  with False assms show ?thesis
    by (simp add: isValidFileHash_def getFileHash_def)
qed

lemma isValidAttachmentMap_hash:
  assumes "isValidAttachmentMap r = Inr True"
  shows "\<exists>vs. field (field r ''imgInfo'') ''hash'' = JArr vs"
proof -
  from assms have "isOfType (field (field r ''imgInfo'') ''hash'') TArray"
    by (simp add: isValidAttachmentMap_def Let_def split: if_splits)
  then show ?thesis
    by (cases "field (field r ''imgInfo'') ''hash''") simp_all
qed

lemma read_attachment_map_has:
  assumes "read_attachment_map fs mapfile ws = Inr (cur, has, ws')"
  shows "has = (\<exists>r. map_of fs mapfile = Some (File (Json r)) \<and> isValidAttachmentMap r = Inr True)
       \<and> (has \<longrightarrow> map_of fs mapfile = Some (File (Json cur)))"
proof (cases "map_of fs mapfile")
  case None
  with assms show ?thesis
    by (simp add: read_attachment_map_def fileExists_def)
next
  case (Some n)
  show ?thesis
  proof (cases n)
    case Dir
    with Some assms show ?thesis
      by (simp add: read_attachment_map_def fileExists_def)
  next
    case (File c)
    show ?thesis
    proof (cases c)
      case (Bytes s)
      with Some File assms show ?thesis
        by (simp add: read_attachment_map_def fileExists_def parseJSONFile_def)
    next
      case (Json r)
      with Some File assms obtain ok where ok: "isValidAttachmentMap r = Inr ok"
        by (cases "isValidAttachmentMap r")
           (simp_all add: read_attachment_map_def fileExists_def parseJSONFile_def)
      with Some File Json assms show ?thesis
        by (cases ok) (simp_all add: read_attachment_map_def fileExists_def parseJSONFile_def)
    qed
  qed
qed

lemma imgIsUpToDate_spec:
  assumes read: "read_attachment_map fs mapfile ws = Inr (cur, has, ws')"
    and p: "p \<noteq> []"
  shows "imgIsUpToDate ev fs (fileExists fs p) has cur img aid p =
           Inr (\<exists>c r. map_of fs p = Some (File c)
                  \<and> map_of fs mapfile = Some (File (Json r))
                  \<and> isValidAttachmentMap r = Inr True
                  \<and> field r ''imageName'' = JStr img
                  \<and> field r ''attachmentId'' = JNum aid
                  \<and> field (field r ''imgInfo'') ''hash'' = JArr (map JNum (sha256 ev c)))"
    (is "_ = Inr ?fresh")
proof -
  note H = read_attachment_map_has[OF read]
  show ?thesis
  proof (cases "fileExists fs p \<and> has")
    case False
    have "\<not> ?fresh"
    proof
      assume ?fresh
      then obtain c r where "map_of fs p = Some (File c)"
        "map_of fs mapfile = Some (File (Json r))" "isValidAttachmentMap r = Inr True"
        by blast
      then have "fileExists fs p" "has" using H by (auto simp: fileExists_def)
      with False show False by simp
    qed
    with False show ?thesis by (auto simp: imgIsUpToDate_def)
  next
    case True
    then obtain c where c: "map_of fs p = Some (File c)"
      by (auto simp: fileExists_def split: option.splits node.splits)
    from True H have cur: "map_of fs mapfile = Some (File (Json cur))"
      and valid: "isValidAttachmentMap cur = Inr True"
      by auto
    from isValidAttachmentMap_hash[OF valid] obtain vs where
      vs: "field (field cur ''imgInfo'') ''hash'' = JArr vs" by blast
    have fresh_eq: "?fresh = (field cur ''imageName'' = JStr img
                  \<and> field cur ''attachmentId'' = JNum aid
                  \<and> vs = map JNum (sha256 ev c))"
      using c cur valid vs by auto
    have hv: "isValidFileHash ev fs p (JArr vs) = Inr (vs = map JNum (sha256 ev c))"
      using isValidFileHash_file[OF c p] .
    show ?thesis
      unfolding fresh_eq using True vs hv
      by (simp add: imgIsUpToDate_def)
  qed
qed





section \<open>The delete guard and the second run\<close>

text \<open>
  The download branch of a \<^verbatim>\<open>keep\<close> entry always throws: when the download and the
  reading of the image succeed, the check that the hash of the image is a string fails,
  since the hash is an array. So the branch never writes a state record and never counts
  a download.
\<close>

lemma keep_download_throws:
  "isl (keep_download ev cfg a_uid a_name dir info mapfile rid e_key e att img st)"
  by (auto simp: keep_download_def getImgInfo_def Let_def
           split: prod.splits sum.splits option.splits node.splits)

text \<open>
  The up-to-date branch throws on every state record that the validator accepts: the
  validator wants the stored hash to be an array, the row of the ledger wants it to be a
  string.
\<close>

lemma keep_up_to_date_throws:
  assumes "isValidAttachmentMap cur = Inr True"
  shows "isl (keep_up_to_date info rid e_key cur st)"
proof -
  from isValidAttachmentMap_hash[OF assms] obtain vs where
    "field (field cur ''imgInfo'') ''hash'' = JArr vs" by blast
  then show ?thesis
    by (auto simp: keep_up_to_date_def csv_row_def getCsvString_def bindE_def split: sum.splits)
qed

text \<open>
  Claim C3 does not hold of the code. The field \<^verbatim>\<open>photoB\<close> of record 1721 has a
  \<^verbatim>\<open>delete\<close> entry, a state record that the validator accepts, and the image that
  the record names on disk; the hash stored in the record, under \<^verbatim>\<open>imgInfo\<close>, is the
  hash of the file. The entry reads the hash from the record itself, where there is
  none, so the comparison throws on its argument: the entry ends as an error under
  either policy, the image is neither removed nor moved, and no deletion is counted.

  The executor meets the image in a whole run when the sweep leaves it in place, that is
  when its name is a keep name of the map: in the map that the builder makes for the
  record whose image moved to the field \<^verbatim>\<open>photoK\<close>, the run over that tree ends the
  entry of \<^verbatim>\<open>photoB\<close> in the same error under either policy.
\<close>

theorem delete_guard_throws_on_matching_hash:
  "isValidAttachmentMap ex_record_old = Inr True
   \<and> fileExists ex_fs_old_image ''out/images/aXf/Survey/1721_old.jpg''
   \<and> isValidFileHash ex_env ex_fs_old_image ''out/images/aXf/Survey/1721_old.jpg''
        (field (field ex_record_old ''imgInfo'') ''hash'') = Inr True
   \<and> field ex_record_old ''hash'' = JUndefined
   \<and> (case exec_entry ex_env ex_configs ''aXf'' ''Survey'' 1721 (''photoB'', ex_entry_delete)
              (init_state ex_fs_old_image 0) of
         Inl e \<Rightarrow> False
       | Inr st' \<Rightarrow>
           es_fs st' = ex_fs_old_image \<and> deletes st' = 0
         \<and> map fr_status (es_results st') = [StatusError]
         \<and> es_errors st' =
             [''an error occurs while proccessing image - error: expected array in @arg: undefined''])
   \<and> (case exec_entry ex_env (ex_configs\<lparr>deleteImages := False\<rparr>) ''aXf'' ''Survey'' 1721
              (''photoB'', ex_entry_delete) (init_state ex_fs_old_image 0) of
         Inl e \<Rightarrow> False
       | Inr st' \<Rightarrow>
           es_fs st' = ex_fs_old_image \<and> deletes st' = 0
         \<and> map fr_status (es_results st') = [StatusError]
         \<and> es_errors st' =
             [''an error occurs while proccessing image - error: expected array in @arg: undefined''])
   \<and> buildActionMap [ex_asset_moved] = Inr [ex_asset_map_moved]
   \<and> map_sum id (\<lambda>(reports, fs', clock').
                    (map (\<lambda>st. (deletes st,
                                map (\<lambda>r. (fr_key r, fr_status r, fr_error r)) (es_results st)))
                       reports,
                     fileExists fs' ''out/images/aXf/Survey/1721_old.jpg''))
        (update_assets ex_env ex_configs [ex_asset_map_moved] new_ImageCleaner ex_fs_old_image 0 [])
     = Inr ([(0, [(''photoB'', StatusError, Some ''expected array in @arg: undefined''),
                  (''photoK'', StatusError,
                   Some ''expected string in @arg: 82,88,77,79,76,73,92,73'')])],
            True)
   \<and> map_sum id (\<lambda>(reports, fs', clock').
                    (map (\<lambda>st. (deletes st,
                                map (\<lambda>r. (fr_key r, fr_status r, fr_error r)) (es_results st)))
                       reports,
                     fileExists fs' ''out/images/aXf/Survey/1721_old.jpg''))
        (update_assets ex_env (ex_configs\<lparr>deleteImages := False\<rparr>) [ex_asset_map_moved]
           new_ImageCleaner ex_fs_old_image 0 [])
     = Inr ([(0, [(''photoB'', StatusError, Some ''expected array in @arg: undefined''),
                  (''photoK'', StatusError,
                   Some ''expected string in @arg: 82,88,77,79,76,73,92,73'')])],
            True)"
  by code_simp

text \<open>
  Claim C7 does not hold of the code. The first run of the scenario, from an empty tree
  and with a network that delivers the image at the first attempt, downloads the image of
  \<^verbatim>\<open>photoA\<close> and then throws before it writes the state record: the run ends with
  failed operations and leaves no state file. The second run, from the tree that the
  first one left and with the same remote data, finds the image on disk and no state
  record, asks the network for the image again (the clock of download attempts moves
  from 1 to 2) and throws at the same place: no entry is counted as up to date.
\<close>

theorem second_run_downloads_again:
  "updateImages ex_env ex_configs [ex_asset_map] [] 0
     = Inr (Inl (Error ''step completed with failed operations''), ex_fs_after_run, 1)
   \<and> fileExists ex_fs_after_run ''out/images/aXf/Survey/1721_photo.jpg''
   \<and> map_of ex_fs_after_run ''out/.attachments_map/aXf/1721/photoA.json'' = None
   \<and> updateImages ex_env ex_configs [ex_asset_map] ex_fs_after_run 1
     = Inr (Inl (Error ''step completed with failed operations''), ex_fs_after_run, 2)
   \<and> map_sum id (\<lambda>(reports, fs', clock').
                    (map upToDate reports, map downloads reports, map es_errors reports))
        (update_assets ex_env ex_configs [ex_asset_map] new_ImageCleaner ex_fs_after_run 1 [])
     = Inr ([0], [0],
            [[''an error occurs while proccessing image - error: expected string in @arg: 82,88,77,79,76,73,92,73'']])"
  by code_simp

section \<open>The retry budget of a download\<close>

text \<open>
  A \<^verbatim>\<open>keep\<close> entry that passes the checks of the loop body, whose target name is not
  claimed yet, whose target is a regular file or nothing, and whose image is not up to
  date, takes the download branch; an error that \<^verbatim>\<open>saveImage\<close> throws there is
  caught by the entry.
\<close>

lemma exec_entry_download_error:
  assumes "ae_action e = Keep" and "ae_attachment e = Some att" and "download_url att \<noteq> []"
    and "ae_value e = JStr v" and "img = show_int rid @ ''_'' @ v"
    and "dir = toPath [imagesPath cfg, a_uid, a_name]" and "p = toPath [dir, img]"
    and "mapfile = toPath [toPath [attachmentsMap cfg, a_uid, show_int rid], e_key @ ''.json'']"
    and "read_attachment_map (es_fs st) mapfile (es_warnings st) = Inr (cur, has, ws)"
    and "img \<notin> set (imageNamesToKeep st)"
    and "fileExists (es_fs st) p \<or> \<not> pathExists (es_fs st) p"
    and "\<not> (\<exists>c r. map_of (es_fs st) p = Some (File c)
                  \<and> map_of (es_fs st) mapfile = Some (File (Json r))
                  \<and> isValidAttachmentMap r = Inr True
                  \<and> field r ''imageName'' = JStr img
                  \<and> field r ''attachmentId'' = JNum (att_id att)
                  \<and> field (field r ''imgInfo'') ''hash'' = JArr (map JNum (sha256 ev c)))"
    and sv: "saveImage ev (maxDownloadRetries cfg) (download_url att) dir img (es_fs st) (es_clock st)
               = (Inl err, fs', clock')"
  shows "\<exists>st'. exec_entry ev cfg a_uid a_name rid (e_key, e) st = Inr st'
           \<and> exec_entries ev cfg a_uid a_name rid ((e_key, e) # rest) st
               = exec_entries ev cfg a_uid a_name rid rest st'
           \<and> es_errors st' = es_errors st @
               [''an error occurs while proccessing image - error: '' @ message err]
           \<and> es_results st' = es_results st @
               [\<lparr>fr_id = rid, fr_key = e_key, fr_status = StatusError, fr_op = ''saveImage'',
                 fr_action_detail = None, fr_error = Some (message err)\<rparr>]
           \<and> downloads st' = downloads st \<and> upToDate st' = upToDate st
           \<and> es_fs st' = fs' \<and> es_clock st' = clock'"
proof -
  define info where "info = toPath [toPath [dir, ''data''], ''images_info.csv'']"
  define st0 where "st0 = st\<lparr>es_warnings := ws\<rparr>"
  define st1 where "st1 = st0\<lparr>imageNamesToKeep := imageNamesToKeep st0 @ [img]\<rparr>"
  define st' where
    "st' = catch_error rid e_key ''saveImage'' err (st1\<lparr>es_fs := fs', es_clock := clock'\<rparr>)"
  have pne: "p \<noteq> []" by (simp add: assms(7) toPath_def)
  from imgIsUpToDate_spec[OF assms(9) pne, of ev img "att_id att"] assms(12)
  have dec: "imgIsUpToDate ev (es_fs st) (fileExists (es_fs st) p) has cur img (att_id att) p
               = Inr False"
    by simp
  have notdup: "img \<notin> set (imageNamesToKeep st0)" using assms(10) by (simp add: st0_def)
  have c: "imgIsUpToDate ev (es_fs st0) (fileExists (es_fs st0) (toPath [dir, img])) has cur
             (show_int rid @ ''_'' @ v) (att_id att) (toPath [dir, img]) = Inr False"
    using dec by (simp add: st0_def assms(5,7))
  have body: "keep_body ev cfg a_uid a_name dir info mapfile rid e_key e cur has st0
      = keep_download ev cfg a_uid a_name dir info mapfile rid e_key e att img st1"
  proof (cases "fileExists (es_fs st0) (toPath [dir, img])")
    case True
    with assms(2,4) notdup c show ?thesis
      by (simp add: keep_body_def Let_def st1_def assms(5))
  next
    case False
    with assms(11) have np: "\<not> pathExists (es_fs st0) (toPath [dir, img])"
      by (simp add: st0_def assms(7))
    from assms(2,4) notdup c False np show ?thesis
      by (simp add: keep_body_def Let_def st1_def assms(5))
  qed
  have sv1: "saveImage ev (maxDownloadRetries cfg) (download_url att) dir img (es_fs st1) (es_clock st1)
               = (Inl err, fs', clock')"
    using sv by (simp add: st1_def st0_def)
  have "run_try rid e_key ''saveImage''
          (keep_download ev cfg a_uid a_name dir info mapfile rid e_key e att img st1) = st'"
    unfolding st'_def by (rule keep_download_failure[OF sv1])
  with body have kb: "run_try rid e_key ''saveImage''
          (keep_body ev cfg a_uid a_name dir info mapfile rid e_key e cur has st0) = st'"
    by simp
  have url: "\<forall>a. ae_attachment e = Some a \<longrightarrow> download_url a \<noteq> []"
    using assms(2,3) by simp
  have chk: "check (ae_value e) IfExists TString" using assms(4) by simp
  have rd: "read_attachment_map (es_fs st)
           (toPath [toPath [attachmentsMap cfg, a_uid, show_int rid], e_key @ ''.json''])
           (es_warnings st) = Inr (cur, has, ws)"
    using assms(9) by (simp add: assms(8))
  have entry: "exec_entry ev cfg a_uid a_name rid (e_key, e) st = Inr st'"
    using exec_entry_dispatch[OF chk url rd, of ev a_name] assms(1) kb
    by (simp add: assms(6,8) info_def st0_def)
  then have cont: "exec_entries ev cfg a_uid a_name rid ((e_key, e) # rest) st
                 = exec_entries ev cfg a_uid a_name rid rest st'"
    by simp
  have facts: "es_errors st' = es_errors st @
                 [''an error occurs while proccessing image - error: '' @ message err]"
    "es_results st' = es_results st @
               [\<lparr>fr_id = rid, fr_key = e_key, fr_status = StatusError, fr_op = ''saveImage'',
                 fr_action_detail = None, fr_error = Some (message err)\<rparr>]"
    "downloads st' = downloads st" "upToDate st' = upToDate st"
    "es_fs st' = fs'" "es_clock st' = clock'"
    by (simp_all add: st'_def catch_error_def st1_def st0_def)
  from entry cont facts show ?thesis by (intro exI[of _ st'] conjI)
qed

text \<open>
  Claim C8. \<^verbatim>\<open>saveImage\<close>, called with a url, a directory and a name in place and a
  budget \<open>mx\<close> that is a number, makes at most \<open>mx\<close> attempts (the clock counts them);
  it returns an image only from an attempt at which the network delivers, that is sends
  a content length and then exactly that many bytes without an error; it throws nothing
  but \<^verbatim>\<open>saveImage fails after N retries\<close>, and only after exactly \<open>mx\<close> attempts; it
  throws that when the network delivers at none of the \<open>mx\<close> attempts; and when the
  network fails \<open>k\<close> times, \<open>k\<close> below \<open>mx\<close>, and then delivers, it tries again after
  each failure, a count of bytes that differs from the content length included, and
  returns the image from attempt \<open>k + 1\<close>, with the file written (provided the directory
  can be made and the target is no directory). With a budget that is not a number it
  throws in its check, before any attempt.

  In the executor, take a \<^verbatim>\<open>keep\<close> entry that reaches the download: it passes the
  checks of the loop body, its name is not claimed yet, its target is a regular file or
  nothing, and the image is not up to date. Whatever error \<^verbatim>\<open>saveImage\<close> throws is
  caught by the entry: the entry is recorded with the status \<^verbatim>\<open>error\<close> and the
  message, one error is pushed, no counter of downloads or of up-to-date images moves,
  and the loop goes on with the next entry. In particular, when the network delivers at
  none of the \<open>mx\<close> attempts, the message is that of the exhausted budget and \<open>mx\<close>
  attempts were made.
\<close>

theorem download_retry_budget:
  assumes "ae_action e = Keep" and "ae_attachment e = Some att" and "download_url att \<noteq> []"
    and "ae_value e = JStr v" and "img = show_int rid @ ''_'' @ v"
    and "dir = toPath [imagesPath cfg, a_uid, a_name]" and "p = toPath [dir, img]"
    and "mapfile = toPath [toPath [attachmentsMap cfg, a_uid, show_int rid], e_key @ ''.json'']"
    and "read_attachment_map (es_fs st) mapfile (es_warnings st) = Inr (cur, has, ws)"
    and "img \<notin> set (imageNamesToKeep st)"
    and "fileExists (es_fs st) p \<or> \<not> pathExists (es_fs st) p"
    and "\<not> (\<exists>c r. map_of (es_fs st) p = Some (File c)
                  \<and> map_of (es_fs st) mapfile = Some (File (Json r))
                  \<and> isValidAttachmentMap r = Inr True
                  \<and> field r ''imageName'' = JStr img
                  \<and> field r ''attachmentId'' = JNum (att_id att)
                  \<and> field (field r ''imgInfo'') ''hash'' = JArr (map JNum (sha256 ev c)))"
  shows "(\<forall>mx i_url i_path i_name fs clock. i_url \<noteq> [] \<and> i_path \<noteq> [] \<and> i_name \<noteq> [] \<longrightarrow>
            (\<exists>r fs' clock'.
                saveImage ev (JNum mx) i_url i_path i_name fs clock = (r, fs', clock')
              \<and> clock \<le> clock' \<and> int clock' - int clock \<le> max 0 mx
              \<and> (\<forall>res. r = Inr res \<longrightarrow> clock < clock' \<and> delivers ev i_url (clock' - 1))
              \<and> (\<forall>err. r = Inl err \<longrightarrow>
                    err = Error (''saveImage fails after '' @ show_int mx @ '' retries'')
                  \<and> int clock' - int clock = max 0 mx)
              \<and> ((\<forall>k. int k < mx \<longrightarrow> \<not> delivers ev i_url (clock + k)) \<longrightarrow>
                    r = Inl (Error (''saveImage fails after '' @ show_int mx @ '' retries'')))
              \<and> (\<forall>k len ct body.
                    int k < mx \<and> (\<forall>j<k. \<not> delivers ev i_url (clock + j))
                  \<and> net ev (clock + k) i_url = Response (Some len) ct body None
                  \<and> len \<noteq> 0 \<and> int (length body) = len
                  \<and> \<not> fileExists fs i_path \<and> \<not> dirExists fs (toPath [i_path, i_name]) \<longrightarrow>
                    r = Inr \<lparr>sr_contentLength = len, sr_bytesRead = length body,
                            sr_contentType = ct\<rparr>
                  \<and> clock' = clock + k + 1
                  \<and> map_of fs' (toPath [i_path, i_name]) = Some (File (Bytes body)))))
       \<and> (\<forall>b i_url i_path i_name fs clock.
            i_url \<noteq> [] \<and> i_path \<noteq> [] \<and> i_name \<noteq> [] \<and> \<not> check b Defined TNumber \<longrightarrow>
            saveImage ev b i_url i_path i_name fs clock = (Inl (CheckError TNumber b), fs, clock))
       \<and> (\<forall>err fs' clock'.
            saveImage ev (maxDownloadRetries cfg) (download_url att) dir img (es_fs st) (es_clock st)
              = (Inl err, fs', clock') \<longrightarrow>
            (\<exists>st'. exec_entry ev cfg a_uid a_name rid (e_key, e) st = Inr st'
               \<and> exec_entries ev cfg a_uid a_name rid ((e_key, e) # rest) st
                   = exec_entries ev cfg a_uid a_name rid rest st'
               \<and> es_errors st' = es_errors st @
                   [''an error occurs while proccessing image - error: '' @ message err]
               \<and> es_results st' = es_results st @
                   [\<lparr>fr_id = rid, fr_key = e_key, fr_status = StatusError, fr_op = ''saveImage'',
                     fr_action_detail = None, fr_error = Some (message err)\<rparr>]
               \<and> downloads st' = downloads st \<and> upToDate st' = upToDate st
               \<and> es_fs st' = fs' \<and> es_clock st' = clock'))
       \<and> (\<forall>mx. maxDownloadRetries cfg = JNum mx
              \<and> (\<forall>k. int k < mx \<longrightarrow> \<not> delivers ev (download_url att) (es_clock st + k)) \<longrightarrow>
            (\<exists>st'. exec_entry ev cfg a_uid a_name rid (e_key, e) st = Inr st'
               \<and> exec_entries ev cfg a_uid a_name rid ((e_key, e) # rest) st
                   = exec_entries ev cfg a_uid a_name rid rest st'
               \<and> es_errors st' = es_errors st @
                   [''an error occurs while proccessing image - error: saveImage fails after ''
                      @ show_int mx @ '' retries'']
               \<and> es_results st' = es_results st @
                   [\<lparr>fr_id = rid, fr_key = e_key, fr_status = StatusError, fr_op = ''saveImage'',
                     fr_action_detail = None,
                     fr_error = Some (''saveImage fails after '' @ show_int mx @ '' retries'')\<rparr>]
               \<and> downloads st' = downloads st \<and> upToDate st' = upToDate st
               \<and> int (es_clock st') - int (es_clock st) = max 0 mx))"
proof -
  have A: "\<forall>mx i_url i_path i_name fs clock. i_url \<noteq> [] \<and> i_path \<noteq> [] \<and> i_name \<noteq> [] \<longrightarrow>
            (\<exists>r fs' clock'.
                saveImage ev (JNum mx) i_url i_path i_name fs clock = (r, fs', clock')
              \<and> clock \<le> clock' \<and> int clock' - int clock \<le> max 0 mx
              \<and> (\<forall>res. r = Inr res \<longrightarrow> clock < clock' \<and> delivers ev i_url (clock' - 1))
              \<and> (\<forall>err. r = Inl err \<longrightarrow>
                    err = Error (''saveImage fails after '' @ show_int mx @ '' retries'')
                  \<and> int clock' - int clock = max 0 mx)
              \<and> ((\<forall>k. int k < mx \<longrightarrow> \<not> delivers ev i_url (clock + k)) \<longrightarrow>
                    r = Inl (Error (''saveImage fails after '' @ show_int mx @ '' retries'')))
              \<and> (\<forall>k len ct body.
                    int k < mx \<and> (\<forall>j<k. \<not> delivers ev i_url (clock + j))
                  \<and> net ev (clock + k) i_url = Response (Some len) ct body None
                  \<and> len \<noteq> 0 \<and> int (length body) = len
                  \<and> \<not> fileExists fs i_path \<and> \<not> dirExists fs (toPath [i_path, i_name]) \<longrightarrow>
                    r = Inr \<lparr>sr_contentLength = len, sr_bytesRead = length body,
                            sr_contentType = ct\<rparr>
                  \<and> clock' = clock + k + 1
                  \<and> map_of fs' (toPath [i_path, i_name]) = Some (File (Bytes body))))"
  proof (intro allI impI)
    fix mx :: int and i_url i_path i_name :: string and fs :: fs and clock :: nat
    assume "i_url \<noteq> [] \<and> i_path \<noteq> [] \<and> i_name \<noteq> []"
    then have a: "i_url \<noteq> []" and b: "i_path \<noteq> []" and c: "i_name \<noteq> []" by simp_all
    show "\<exists>r fs' clock'.
                saveImage ev (JNum mx) i_url i_path i_name fs clock = (r, fs', clock')
              \<and> clock \<le> clock' \<and> int clock' - int clock \<le> max 0 mx
              \<and> (\<forall>res. r = Inr res \<longrightarrow> clock < clock' \<and> delivers ev i_url (clock' - 1))
              \<and> (\<forall>err. r = Inl err \<longrightarrow>
                    err = Error (''saveImage fails after '' @ show_int mx @ '' retries'')
                  \<and> int clock' - int clock = max 0 mx)
              \<and> ((\<forall>k. int k < mx \<longrightarrow> \<not> delivers ev i_url (clock + k)) \<longrightarrow>
                    r = Inl (Error (''saveImage fails after '' @ show_int mx @ '' retries'')))
              \<and> (\<forall>k len ct body.
                    int k < mx \<and> (\<forall>j<k. \<not> delivers ev i_url (clock + j))
                  \<and> net ev (clock + k) i_url = Response (Some len) ct body None
                  \<and> len \<noteq> 0 \<and> int (length body) = len
                  \<and> \<not> fileExists fs i_path \<and> \<not> dirExists fs (toPath [i_path, i_name]) \<longrightarrow>
                    r = Inr \<lparr>sr_contentLength = len, sr_bytesRead = length body,
                            sr_contentType = ct\<rparr>
                  \<and> clock' = clock + k + 1
                  \<and> map_of fs' (toPath [i_path, i_name]) = Some (File (Bytes body)))"
      by (rule saveImage_spec[OF a b c])
  qed
  have B: "\<forall>b i_url i_path i_name fs clock.
            i_url \<noteq> [] \<and> i_path \<noteq> [] \<and> i_name \<noteq> [] \<and> \<not> check b Defined TNumber \<longrightarrow>
            saveImage ev b i_url i_path i_name fs clock = (Inl (CheckError TNumber b), fs, clock)"
  proof (intro allI impI)
    fix b :: jsval and i_url i_path i_name :: string and fs :: fs and clock :: nat
    assume "i_url \<noteq> [] \<and> i_path \<noteq> [] \<and> i_name \<noteq> [] \<and> \<not> check b Defined TNumber"
    then have a: "i_url \<noteq> []" and b: "i_path \<noteq> []" and c: "i_name \<noteq> []"
      and d: "\<not> check b Defined TNumber" by simp_all
    show "saveImage ev b i_url i_path i_name fs clock = (Inl (CheckError TNumber b), fs, clock)"
      by (rule saveImage_budget_not_number[OF a b c d])
  qed
  have C: "\<forall>err fs' clock'.
            saveImage ev (maxDownloadRetries cfg) (download_url att) dir img (es_fs st) (es_clock st)
              = (Inl err, fs', clock') \<longrightarrow>
            (\<exists>st'. exec_entry ev cfg a_uid a_name rid (e_key, e) st = Inr st'
               \<and> exec_entries ev cfg a_uid a_name rid ((e_key, e) # rest) st
                   = exec_entries ev cfg a_uid a_name rid rest st'
               \<and> es_errors st' = es_errors st @
                   [''an error occurs while proccessing image - error: '' @ message err]
               \<and> es_results st' = es_results st @
                   [\<lparr>fr_id = rid, fr_key = e_key, fr_status = StatusError, fr_op = ''saveImage'',
                     fr_action_detail = None, fr_error = Some (message err)\<rparr>]
               \<and> downloads st' = downloads st \<and> upToDate st' = upToDate st
               \<and> es_fs st' = fs' \<and> es_clock st' = clock')"
  proof (intro allI impI)
    fix err fs' clock'
    assume sv: "saveImage ev (maxDownloadRetries cfg) (download_url att) dir img (es_fs st)
                  (es_clock st) = (Inl err, fs', clock')"
    show "\<exists>st'. exec_entry ev cfg a_uid a_name rid (e_key, e) st = Inr st'
               \<and> exec_entries ev cfg a_uid a_name rid ((e_key, e) # rest) st
                   = exec_entries ev cfg a_uid a_name rid rest st'
               \<and> es_errors st' = es_errors st @
                   [''an error occurs while proccessing image - error: '' @ message err]
               \<and> es_results st' = es_results st @
                   [\<lparr>fr_id = rid, fr_key = e_key, fr_status = StatusError, fr_op = ''saveImage'',
                     fr_action_detail = None, fr_error = Some (message err)\<rparr>]
               \<and> downloads st' = downloads st \<and> upToDate st' = upToDate st
               \<and> es_fs st' = fs' \<and> es_clock st' = clock'"
      by (rule exec_entry_download_error[OF assms sv])
  qed
  have D: "\<forall>mx. maxDownloadRetries cfg = JNum mx
              \<and> (\<forall>k. int k < mx \<longrightarrow> \<not> delivers ev (download_url att) (es_clock st + k)) \<longrightarrow>
            (\<exists>st'. exec_entry ev cfg a_uid a_name rid (e_key, e) st = Inr st'
               \<and> exec_entries ev cfg a_uid a_name rid ((e_key, e) # rest) st
                   = exec_entries ev cfg a_uid a_name rid rest st'
               \<and> es_errors st' = es_errors st @
                   [''an error occurs while proccessing image - error: saveImage fails after ''
                      @ show_int mx @ '' retries'']
               \<and> es_results st' = es_results st @
                   [\<lparr>fr_id = rid, fr_key = e_key, fr_status = StatusError, fr_op = ''saveImage'',
                     fr_action_detail = None,
                     fr_error = Some (''saveImage fails after '' @ show_int mx @ '' retries'')\<rparr>]
               \<and> downloads st' = downloads st \<and> upToDate st' = upToDate st
               \<and> int (es_clock st') - int (es_clock st) = max 0 mx)"
  proof (intro allI impI)
    fix mx
    assume H: "maxDownloadRetries cfg = JNum mx
              \<and> (\<forall>k. int k < mx \<longrightarrow> \<not> delivers ev (download_url att) (es_clock st + k))"
    then have mx: "maxDownloadRetries cfg = JNum mx"
      and fail: "\<forall>k. int k < mx \<longrightarrow> \<not> delivers ev (download_url att) (es_clock st + k)"
      by simp_all
    define msg where "msg = Error (''saveImage fails after '' @ show_int mx @ '' retries'')"
    have dirne: "dir \<noteq> []" unfolding assms(6) by (rule toPath_nonempty)
    have imgne: "img \<noteq> []" using assms(5) by simp
    from saveImage_spec[OF assms(3) dirne imgne, of ev mx "es_fs st" "es_clock st"]
    obtain r fs' clock' where
      sv: "saveImage ev (JNum mx) (download_url att) dir img (es_fs st) (es_clock st) = (r, fs', clock')"
      and c4: "\<forall>err. r = Inl err \<longrightarrow> err = msg \<and> int clock' - int (es_clock st) = max 0 mx"
      and c5: "(\<forall>k. int k < mx \<longrightarrow> \<not> delivers ev (download_url att) (es_clock st + k)) \<longrightarrow> r = Inl msg"
      unfolding msg_def by blast
    from c5 fail have r: "r = Inl msg" by (rule mp)
    with c4 have clk: "int clock' - int (es_clock st) = max 0 mx" by simp
    from sv r mx have sv': "saveImage ev (maxDownloadRetries cfg) (download_url att) dir img
                              (es_fs st) (es_clock st) = (Inl msg, fs', clock')"
      by simp
    from exec_entry_download_error[OF assms sv', of rest] obtain st' where
      e1: "exec_entry ev cfg a_uid a_name rid (e_key, e) st = Inr st'"
      and e2: "exec_entries ev cfg a_uid a_name rid ((e_key, e) # rest) st
                   = exec_entries ev cfg a_uid a_name rid rest st'"
      and e3: "es_errors st' = es_errors st @
                   [''an error occurs while proccessing image - error: '' @ message msg]"
      and e4: "es_results st' = es_results st @
                   [\<lparr>fr_id = rid, fr_key = e_key, fr_status = StatusError, fr_op = ''saveImage'',
                     fr_action_detail = None, fr_error = Some (message msg)\<rparr>]"
      and e5: "downloads st' = downloads st" and e6: "upToDate st' = upToDate st"
      and e8: "es_clock st' = clock'"
      by blast
    have m: "message msg = ''saveImage fails after '' @ show_int mx @ '' retries''"
      by (simp add: msg_def)
    from e3 m have e3': "es_errors st' = es_errors st @
                   [''an error occurs while proccessing image - error: saveImage fails after ''
                      @ show_int mx @ '' retries'']"
      by simp
    from e4 m have e4': "es_results st' = es_results st @
                   [\<lparr>fr_id = rid, fr_key = e_key, fr_status = StatusError, fr_op = ''saveImage'',
                     fr_action_detail = None,
                     fr_error = Some (''saveImage fails after '' @ show_int mx @ '' retries'')\<rparr>]"
      by simp
    from clk e8 have e7: "int (es_clock st') - int (es_clock st) = max 0 mx" by simp
    from e1 e2 e3' e4' e5 e6 e7
    show "\<exists>st'. exec_entry ev cfg a_uid a_name rid (e_key, e) st = Inr st'
               \<and> exec_entries ev cfg a_uid a_name rid ((e_key, e) # rest) st
                   = exec_entries ev cfg a_uid a_name rid rest st'
               \<and> es_errors st' = es_errors st @
                   [''an error occurs while proccessing image - error: saveImage fails after ''
                      @ show_int mx @ '' retries'']
               \<and> es_results st' = es_results st @
                   [\<lparr>fr_id = rid, fr_key = e_key, fr_status = StatusError, fr_op = ''saveImage'',
                     fr_action_detail = None,
                     fr_error = Some (''saveImage fails after '' @ show_int mx @ '' retries'')\<rparr>]
               \<and> downloads st' = downloads st \<and> upToDate st' = upToDate st
               \<and> int (es_clock st') - int (es_clock st) = max 0 mx"
      by (intro exI[of _ st'] conjI)
  qed
  from A B C D show ?thesis by (intro conjI)
qed

text \<open>
  The theorem at the scenario, for the field \<^verbatim>\<open>photoA\<close> of record 1721, from an empty
  tree and with a budget of three attempts. With the network that sends half of the
  image first, \<^verbatim>\<open>saveImage\<close> tries again and returns the image from the second
  attempt. With the network down, the entry ends in the error of the exhausted budget
  after three attempts. With the budget given as text, the entry ends in the error of
  the check, and no attempt is made.
\<close>

theorem download_retry_budget_witness:
  "(\<exists>fs'. saveImage ex_env_flaky (JNum 3) ''https://kc/media/photo.jpg''
             ''out/images/aXf/Survey'' ''1721_photo.jpg'' [] 0
           = (Inr \<lparr>sr_contentLength = 8, sr_bytesRead = 8, sr_contentType = Some ''image/jpeg''\<rparr>,
              fs', 2)
         \<and> map_of fs' ''out/images/aXf/Survey/1721_photo.jpg'' = Some (File (Bytes ''JPEGDATA'')))
   \<and> (\<exists>st'. exec_entry ex_env_offline ex_configs ''aXf'' ''Survey'' 1721
               (''photoA'', ex_entry_keep) (init_state [] 0) = Inr st'
         \<and> es_errors st' =
             [''an error occurs while proccessing image - error: saveImage fails after 3 retries'']
         \<and> downloads st' = 0 \<and> es_clock st' = 3)
   \<and> (\<exists>st'. exec_entry ex_env ex_configs_text_budget ''aXf'' ''Survey'' 1721
               (''photoA'', ex_entry_keep) (init_state [] 0) = Inr st'
         \<and> es_errors st' =
             [''an error occurs while proccessing image - error: expected number in @arg: 3'']
         \<and> downloads st' = 0 \<and> es_clock st' = 0)"
proof -
  let ?url = "''https://kc/media/photo.jpg''"
  let ?dir = "''out/images/aXf/Survey''"
  let ?img = "''1721_photo.jpg''"
  let ?p = "''out/images/aXf/Survey/1721_photo.jpg''"
  let ?mapfile = "''out/.attachments_map/aXf/1721/photoA.json''"
  define st where "st = init_state [] 0"
  have st: "es_fs st = []" "es_clock st = 0" "es_warnings st = []" "imageNamesToKeep st = []"
    "es_errors st = []" "downloads st = 0"
    by (simp_all add: st_def init_state_def)
  have three: "show_int 3 = ''3''" by code_simp
  have h1: "ae_action ex_entry_keep = Keep" by (simp add: ex_entry_keep_def)
  have h2: "ae_attachment ex_entry_keep = Some ex_attachment" by (simp add: ex_entry_keep_def)
  have h3: "download_url ex_attachment \<noteq> []" by (simp add: ex_attachment_def)
  have url: "download_url ex_attachment = ?url" by (simp add: ex_attachment_def)
  have h4: "ae_value ex_entry_keep = JStr ''photo.jpg''" by (simp add: ex_entry_keep_def)
  have h5: "?img = show_int 1721 @ ''_'' @ ''photo.jpg''" by code_simp
  have h6: "?dir = toPath [imagesPath ex_configs, ''aXf'', ''Survey'']" by code_simp
  have h6t: "?dir = toPath [imagesPath ex_configs_text_budget, ''aXf'', ''Survey'']" by code_simp
  have h7: "?p = toPath [?dir, ?img]" by code_simp
  have h8: "?mapfile = toPath [toPath [attachmentsMap ex_configs, ''aXf'', show_int 1721],
                               ''photoA'' @ ''.json'']"
    by code_simp
  have h8t: "?mapfile = toPath [toPath [attachmentsMap ex_configs_text_budget, ''aXf'', show_int 1721],
                                ''photoA'' @ ''.json'']"
    by code_simp
  have h9: "read_attachment_map (es_fs st) ?mapfile (es_warnings st) = Inr (JNull, False, [])"
    by (simp add: st read_attachment_map_def fileExists_def)
  have h10: "?img \<notin> set (imageNamesToKeep st)" by (simp add: st)
  have h11: "fileExists (es_fs st) ?p \<or> \<not> pathExists (es_fs st) ?p"
    by (simp add: st pathExists_def)
  have h12: "\<not> (\<exists>c r. map_of (es_fs st) ?p = Some (File c)
                  \<and> map_of (es_fs st) ?mapfile = Some (File (Json r))
                  \<and> isValidAttachmentMap r = Inr True
                  \<and> field r ''imageName'' = JStr ?img
                  \<and> field r ''attachmentId'' = JNum (att_id ex_attachment)
                  \<and> field (field r ''imgInfo'') ''hash'' = JArr (map JNum (sha256 ev c)))" for ev
    by (simp add: st)
  note T1 = download_retry_budget[OF h1 h2 h3 h4 h5 h6 h7 h8 h9 h10 h11 h12,
              where ev = ex_env_flaky and rest = "[]"]
  note T2 = download_retry_budget[OF h1 h2 h3 h4 h5 h6 h7 h8 h9 h10 h11 h12,
              where ev = ex_env_offline and rest = "[]"]
  note T3 = download_retry_budget[OF h1 h2 h3 h4 h5 h6t h7 h8t h9 h10 h11 h12,
              where ev = ex_env and rest = "[]"]
  have first: "\<exists>fs'. saveImage ex_env_flaky (JNum 3) ?url ?dir ?img [] 0
           = (Inr \<lparr>sr_contentLength = 8, sr_bytesRead = 8, sr_contentType = Some ''image/jpeg''\<rparr>,
              fs', 2)
         \<and> map_of fs' ?p = Some (File (Bytes ''JPEGDATA''))"
  proof -
    have ne: "?url \<noteq> [] \<and> ?dir \<noteq> [] \<and> ?img \<noteq> []" by simp
    from T1[THEN conjunct1, THEN spec[where x = "3::int"], THEN spec[where x = "?url"],
            THEN spec[where x = "?dir"], THEN spec[where x = "?img"],
            THEN spec[where x = "[]::fs"], THEN spec[where x = "0::nat"], THEN mp, OF ne]
    obtain r fs' clock' where
      sv: "saveImage ex_env_flaky (JNum 3) ?url ?dir ?img [] 0 = (r, fs', clock')"
      and c6: "\<forall>k len ct body.
                    int k < 3 \<and> (\<forall>j<k. \<not> delivers ex_env_flaky ?url (0 + j))
                  \<and> net ex_env_flaky (0 + k) ?url = Response (Some len) ct body None
                  \<and> len \<noteq> 0 \<and> int (length body) = len
                  \<and> \<not> fileExists [] ?dir \<and> \<not> dirExists [] (toPath [?dir, ?img]) \<longrightarrow>
                    r = Inr \<lparr>sr_contentLength = len, sr_bytesRead = length body,
                            sr_contentType = ct\<rparr>
                  \<and> clock' = 0 + k + 1
                  \<and> map_of fs' (toPath [?dir, ?img]) = Some (File (Bytes body))"
      by (elim exE conjE)
    have pre: "int 1 < 3 \<and> (\<forall>j<1. \<not> delivers ex_env_flaky ?url (0 + j))
                  \<and> net ex_env_flaky (0 + 1) ?url
                      = Response (Some 8) (Some ''image/jpeg'') ''JPEGDATA'' None
                  \<and> (8::int) \<noteq> 0 \<and> int (length ''JPEGDATA'') = 8
                  \<and> \<not> fileExists [] ?dir \<and> \<not> dirExists [] (toPath [?dir, ?img])"
      by (simp add: delivers_def ex_env_flaky_def fileExists_def dirExists_def)
    from c6[THEN spec[where x = "1::nat"], THEN spec[where x = "8::int"],
            THEN spec[where x = "Some ''image/jpeg''"], THEN spec[where x = "''JPEGDATA''"],
            THEN mp, OF pre]
    have "r = Inr \<lparr>sr_contentLength = 8, sr_bytesRead = 8, sr_contentType = Some ''image/jpeg''\<rparr>"
      "clock' = 2" "map_of fs' ?p = Some (File (Bytes ''JPEGDATA''))"
      by (simp_all add: h7[symmetric])
    with sv show ?thesis by (intro exI[of _ fs']) simp
  qed
  have second: "\<exists>st'. exec_entry ex_env_offline ex_configs ''aXf'' ''Survey'' 1721
               (''photoA'', ex_entry_keep) (init_state [] 0) = Inr st'
         \<and> es_errors st' =
             [''an error occurs while proccessing image - error: saveImage fails after 3 retries'']
         \<and> downloads st' = 0 \<and> es_clock st' = 3"
  proof -
    have pre: "maxDownloadRetries ex_configs = JNum 3
              \<and> (\<forall>k. int k < 3 \<longrightarrow>
                    \<not> delivers ex_env_offline (download_url ex_attachment) (es_clock st + k))"
      by (simp add: ex_configs_def delivers_def ex_env_offline_def)
    from T2[THEN conjunct2, THEN conjunct2, THEN conjunct2, THEN spec[where x = "3::int"],
            THEN mp, OF pre]
    obtain st' where
      e: "exec_entry ex_env_offline ex_configs ''aXf'' ''Survey'' 1721 (''photoA'', ex_entry_keep) st
            = Inr st'"
      and er: "es_errors st' = es_errors st @
                   [''an error occurs while proccessing image - error: saveImage fails after ''
                      @ show_int 3 @ '' retries'']"
      and d: "downloads st' = downloads st"
      and c: "int (es_clock st') - int (es_clock st) = max 0 3"
      by (elim exE conjE)
    from e er d c show ?thesis
      by (intro exI[of _ st']) (simp add: st three st_def[symmetric])
  qed
  have third: "\<exists>st'. exec_entry ex_env ex_configs_text_budget ''aXf'' ''Survey'' 1721
               (''photoA'', ex_entry_keep) (init_state [] 0) = Inr st'
         \<and> es_errors st' =
             [''an error occurs while proccessing image - error: expected number in @arg: 3'']
         \<and> downloads st' = 0 \<and> es_clock st' = 0"
  proof -
    have b: "maxDownloadRetries ex_configs_text_budget = JStr ''3''"
      by (simp add: ex_configs_text_budget_def)
    have pre: "download_url ex_attachment \<noteq> [] \<and> ?dir \<noteq> [] \<and> ?img \<noteq> []
                \<and> \<not> check (JStr ''3'') Defined TNumber"
      by (simp add: ex_attachment_def)
    from T3[THEN conjunct2, THEN conjunct1, THEN spec[where x = "JStr ''3''"],
            THEN spec[where x = "download_url ex_attachment"],
            THEN spec[where x = "?dir"], THEN spec[where x = "?img"],
            THEN spec[where x = "es_fs st"], THEN spec[where x = "es_clock st"], THEN mp, OF pre]
    have sv: "saveImage ex_env (maxDownloadRetries ex_configs_text_budget)
                (download_url ex_attachment) ?dir ?img (es_fs st) (es_clock st)
              = (Inl (CheckError TNumber (JStr ''3'')), es_fs st, es_clock st)"
      by (simp add: b)
    from T3[THEN conjunct2, THEN conjunct2, THEN conjunct1,
            THEN spec[where x = "CheckError TNumber (JStr ''3'')"],
            THEN spec[where x = "es_fs st"], THEN spec[where x = "es_clock st"], THEN mp, OF sv]
    obtain st' where
      e: "exec_entry ex_env ex_configs_text_budget ''aXf'' ''Survey'' 1721
            (''photoA'', ex_entry_keep) st = Inr st'"
      and er: "es_errors st' = es_errors st @
                 [''an error occurs while proccessing image - error: ''
                    @ message (CheckError TNumber (JStr ''3''))]"
      and d: "downloads st' = downloads st"
      and c: "es_clock st' = es_clock st"
      by (elim exE conjE)
    from e er d c show ?thesis
      by (intro exI[of _ st']) (simp add: st st_def[symmetric])
  qed
  from first second third show ?thesis by (intro conjI)
qed

end
